theory Spec2Isabelle
  imports Main "HOL-Library.Multiset" "HOL-Library.Sublist"
begin

section \<open>Python values, strings and exceptions\<close>

text \<open>
  A Python \<open>str\<close> is carried as the list of the bytes of its UTF-8 encoding
  (\<^typ>\<open>string\<close>). The operations of \<open>seller.py\<close> on strings are equality,
  membership in a list, splitting at the ASCII character \<open>.\<close> and deleting every
  character outside \<open>0-9\<close>; each of them gives the same answer on the UTF-8 bytes as
  on the code points, because the encoding is injective and every byte of a
  non-ASCII code point is at least \<open>0x80\<close>. The builtin \<open>int\<close> looks at the code
  points, so its model decodes the bytes first.

  The cells of the supplier's spreadsheet reach the code as the values of a
  dictionary: strings, integers, or \<open>None\<close> when \<open>dict.get\<close> finds no such key.
  Floating point cells are outside this model.
\<close>

datatype pyval = PNone | PInt int | PStr string

datatype error = ValueError | TypeError | AttributeError | IndexError | ApiError

definition is_digit :: "char \<Rightarrow> bool" where
  "is_digit c = (48 \<le> (of_char c :: nat) \<and> (of_char c :: nat) \<le> 57)"

definition digit_val :: "char \<Rightarrow> nat" where
  "digit_val c = (of_char c :: nat) - 48"

definition digit_char :: "nat \<Rightarrow> char" where
  "digit_char d = char_of (48 + d)"

text \<open>\<open>str(n)\<close> of an integer: its decimal digits, with a minus sign when negative.\<close>

fun str_nat :: "nat \<Rightarrow> string" where
  "str_nat n = (if n < 10 then [digit_char n] else str_nat (n div 10) @ [digit_char (n mod 10)])"

declare str_nat.simps [simp del]

definition str_int :: "int \<Rightarrow> string" where
  "str_int i = (if i < 0 then CHR ''-'' # str_nat (nat (- i)) else str_nat (nat i))"

text \<open>The builtin \<open>str\<close>.\<close>

fun py_str :: "pyval \<Rightarrow> string" where
  "py_str PNone = ''None''"
| "py_str (PInt i) = str_int i"
| "py_str (PStr s) = s"

text \<open>
  The builtin \<open>int\<close> on a string, base ten, as CPython 3.11 computes it. A string that
  has a character outside ASCII is rewritten first: a character below 127 stays, a
  Unicode space becomes a blank, a Unicode decimal digit becomes the ASCII digit of its
  value, and at any other character the rewriting stops with a question mark. Then white
  space (the blank and the characters 9 to 13) is stripped at both ends, one sign may
  come first, then digits, where single underscores may stand between two digits. A
  number of more than 4300 digits is refused (the default of \<open>sys.int_max_str_digits\<close>).
  Every refusal is a \<open>ValueError\<close>. The tables of spaces and of decimal digits are those
  of Unicode 14.0, which CPython 3.11 carries.
\<close>

definition is_ascii :: "char \<Rightarrow> bool" where
  "is_ascii c = ((of_char c :: nat) < 128)"

text \<open>
  The code points of a string, from its UTF-8 bytes. The bytes of a Python string are
  always well formed; on other bytes the result is of no interest.
\<close>

definition continuation :: "char \<Rightarrow> bool" where
  "continuation c = (128 \<le> (of_char c :: nat) \<and> (of_char c :: nat) < 192)"

definition utf8_length :: "nat \<Rightarrow> nat" where
  "utf8_length b =
     (if b < 128 then 1
      else if 192 \<le> b \<and> b < 224 then 2
      else if 224 \<le> b \<and> b < 240 then 3
      else if 240 \<le> b \<and> b < 248 then 4
      else 0)"

definition utf8_value :: "nat \<Rightarrow> string \<Rightarrow> nat" where
  "utf8_value b tail =
     foldl (\<lambda>v t. v * 64 + ((of_char t :: nat) - 128))
       (if b < 128 then b else if b < 224 then b - 192 else if b < 240 then b - 224 else b - 240)
       tail"

function utf8_decode :: "string \<Rightarrow> nat list option" where
  "utf8_decode [] = Some []"
| "utf8_decode (c # cs) =
     (if utf8_length (of_char c) = 0
         \<or> length cs < utf8_length (of_char c) - 1
         \<or> \<not> list_all continuation (take (utf8_length (of_char c) - 1) cs)
      then None
      else map_option
             (\<lambda>cps. utf8_value (of_char c) (take (utf8_length (of_char c) - 1) cs) # cps)
             (utf8_decode (drop (utf8_length (of_char c) - 1) cs)))"
  by pat_completeness auto
termination
  by (relation "measure length") auto

declare utf8_decode.simps [simp del]

text \<open>The Unicode spaces outside ASCII.\<close>

definition unicode_space :: "nat \<Rightarrow> bool" where
  "unicode_space cp =
     (cp \<in> set [0x85, 0xA0, 0x1680, 0x2000, 0x2001, 0x2002, 0x2003, 0x2004, 0x2005, 0x2006,
                0x2007, 0x2008, 0x2009, 0x200A, 0x2028, 0x2029, 0x202F, 0x205F, 0x3000])"

text \<open>
  The Unicode decimal digits: they come in runs of ten, in the order of their values;
  the list holds the code point of the zero of each run.
\<close>

definition decimal_zeros :: "nat list" where
  "decimal_zeros =
     [0x30, 0x660, 0x6F0, 0x7C0, 0x966, 0x9E6, 0xA66, 0xAE6, 0xB66, 0xBE6, 0xC66, 0xCE6,
      0xD66, 0xDE6, 0xE50, 0xED0, 0xF20, 0x1040, 0x1090, 0x17E0, 0x1810, 0x1946, 0x19D0,
      0x1A80, 0x1A90, 0x1B50, 0x1BB0, 0x1C40, 0x1C50, 0xA620, 0xA8D0, 0xA900, 0xA9D0,
      0xA9F0, 0xAA50, 0xABF0, 0xFF10, 0x104A0, 0x10D30, 0x11066, 0x110F0, 0x11136,
      0x111D0, 0x112F0, 0x11450, 0x114D0, 0x11650, 0x116C0, 0x11730, 0x118E0, 0x11950,
      0x11C50, 0x11D50, 0x11DA0, 0x16A60, 0x16AC0, 0x16B50, 0x1D7CE, 0x1D7D8, 0x1D7E2,
      0x1D7EC, 0x1D7F6, 0x1E140, 0x1E2F0, 0x1E950, 0x1FBF0]"

definition unicode_decimal :: "nat \<Rightarrow> nat option" where
  "unicode_decimal cp =
     (case filter (\<lambda>z. z \<le> cp \<and> cp < z + 10) decimal_zeros of
        [] \<Rightarrow> None
      | z # _ \<Rightarrow> Some (cp - z))"

fun ascii_form :: "nat list \<Rightarrow> string" where
  "ascii_form [] = []"
| "ascii_form (cp # cps) =
     (if cp < 127 then char_of cp # ascii_form cps
      else if unicode_space cp then CHR '' '' # ascii_form cps
      else (case unicode_decimal cp of
              None \<Rightarrow> ''?''
            | Some d \<Rightarrow> digit_char d # ascii_form cps))"

definition transform_decimal_and_space :: "string \<Rightarrow> string option" where
  "transform_decimal_and_space s =
     (if list_all is_ascii s then Some s else map_option ascii_form (utf8_decode s))"

definition is_space :: "char \<Rightarrow> bool" where
  "is_space c = ((9 \<le> (of_char c :: nat) \<and> (of_char c :: nat) \<le> 13) \<or> (of_char c :: nat) = 32)"

definition strip :: "string \<Rightarrow> string" where
  "strip s = rev (dropWhile is_space (rev (dropWhile is_space s)))"

fun digits_us :: "string \<Rightarrow> nat \<Rightarrow> nat option" where
  "digits_us [] acc = None"
| "digits_us [c] acc = (if is_digit c then Some (acc * 10 + digit_val c) else None)"
| "digits_us (c # d # ds) acc =
     (if is_digit c
      then (if d = CHR ''_'' then digits_us ds (acc * 10 + digit_val c)
            else digits_us (d # ds) (acc * 10 + digit_val c))
      else None)"

definition int_max_str_digits :: nat where
  "int_max_str_digits = 4300"

definition digits_value :: "string \<Rightarrow> nat option" where
  "digits_value body =
     (case digits_us body 0 of
        None \<Rightarrow> None
      | Some n \<Rightarrow> if int_max_str_digits < length (filter is_digit body) then None else Some n)"

definition int_of_ascii :: "string \<Rightarrow> int option" where
  "int_of_ascii a =
     (case strip a of
        [] \<Rightarrow> None
      | c # cs \<Rightarrow>
          if c = CHR ''-'' then map_option (\<lambda>n. - int n) (digits_value cs)
          else if c = CHR ''+'' then map_option int (digits_value cs)
          else map_option int (digits_value (c # cs)))"

definition int_of_str :: "string \<Rightarrow> int option" where
  "int_of_str s =
     (case transform_decimal_and_space s of
        None \<Rightarrow> None
      | Some a \<Rightarrow> int_of_ascii a)"

text \<open>
  The characters that can stand in a string that \<open>int\<close> accepts: digits, the
  underscore, the two signs and white space.
\<close>

definition numeric_char :: "nat \<Rightarrow> bool" where
  "numeric_char cp =
     (if cp < 128
      then (48 \<le> cp \<and> cp \<le> 57) \<or> cp = 95 \<or> cp = 43 \<or> cp = 45 \<or> (9 \<le> cp \<and> cp \<le> 13) \<or> cp = 32
      else unicode_space cp \<or> unicode_decimal cp \<noteq> None)"

text \<open>An ASCII character that can stand nowhere in such a string.\<close>

definition foreign :: "char \<Rightarrow> bool" where
  "foreign c = (\<not> is_digit c \<and> c \<noteq> CHR ''_'' \<and> c \<noteq> CHR ''+'' \<and> c \<noteq> CHR ''-'' \<and> \<not> is_space c)"

text \<open>The number that a string of decimal digits denotes.\<close>

definition decimal :: "string \<Rightarrow> nat" where
  "decimal s = foldl (\<lambda>a c. a * 10 + digit_val c) 0 s"

text \<open>The builtin \<open>int\<close>: the identity on integers, a \<open>TypeError\<close> on \<open>None\<close>.\<close>

fun py_int :: "pyval \<Rightarrow> error + int" where
  "py_int PNone = Inl TypeError"
| "py_int (PInt i) = Inr i"
| "py_int (PStr s) = (case int_of_str s of None \<Rightarrow> Inl ValueError | Some i \<Rightarrow> Inr i)"

section \<open>The supplier's records and the updates sent to the marketplace\<close>

text \<open>
  A row of the supplier's sheet is a dictionary; the code reads the three keys
  \<open>Kod\<close> (the article code), \<open>Kolichestvo\<close> (the quantity) and \<open>Tsena\<close> (the price), each
  with \<open>watch.get\<close>, whose value is \<open>None\<close> when the key is missing.
\<close>

record watch =
  Kod :: pyval
  Kolichestvo :: pyval
  Tsena :: pyval

record stock_update =
  offer_id :: string
  stock :: int

record price_update =
  auto_action_enabled :: string
  currency_code :: string
  price_offer_id :: string
  old_price :: string
  price :: string

section \<open>\<open>price_conversion\<close>\<close>

text \<open>\<open>s.split(sep)\<close> for a separator of one character: never an empty list.\<close>

fun py_split :: "char \<Rightarrow> string \<Rightarrow> string list" where
  "py_split sep [] = [[]]"
| "py_split sep (c # cs) =
     (if c = sep then [] # py_split sep cs
      else (case py_split sep cs of
              [] \<Rightarrow> [[c]]
            | p # ps \<Rightarrow> (c # p) # ps))"

text \<open>Indexing with \<open>[0]\<close>: an \<open>IndexError\<close> on the empty list.\<close>

fun py_first :: "'a list \<Rightarrow> error + 'a" where
  "py_first [] = Inl IndexError"
| "py_first (x # xs) = Inr x"

text \<open>\<open>re.sub("[^0-9]", "", s)\<close>: every character outside \<open>0-9\<close> is deleted.\<close>

definition re_sub_non_digits :: "string \<Rightarrow> string" where
  "re_sub_non_digits s = filter is_digit s"

text \<open>
  \<open>price_conversion(price)\<close> is \<open>re.sub("[^0-9]", "", price.split(".")[0])\<close>. A value
  that is not a string has no \<open>split\<close>: an \<open>AttributeError\<close>.
\<close>

fun price_conversion :: "pyval \<Rightarrow> error + string" where
  "price_conversion (PStr s) =
     (case py_first (py_split CHR ''.'' s) of
        Inl e \<Rightarrow> Inl e
      | Inr p \<Rightarrow> Inr (re_sub_non_digits p))"
| "price_conversion _ = Inl AttributeError"

text \<open>The price of the docstring, \<open>5'990.00\<close> followed by the rouble suffix.\<close>

definition rub :: string where
  "rub = [CHR 0xD1, CHR 0x80, CHR 0xD1, CHR 0x83, CHR 0xD0, CHR 0xB1, CHR ''.'']"

definition price_5990 :: string where
  "price_5990 = ''5'990.00 '' @ rub"

definition price_199 :: string where
  "price_199 = ''199 '' @ rub"

section \<open>\<open>create_stocks\<close> and \<open>create_prices\<close>\<close>

text \<open>
  The stock of one record, as the body of the first loop of \<open>create_stocks\<close> computes
  it: \<open>count = str(watch.get(Kolichestvo))\<close> is compared with the two sentinels, and
  anything else goes through \<open>int(watch.get(Kolichestvo))\<close>, which may raise.
\<close>

definition stock_of :: "pyval \<Rightarrow> error + int" where
  "stock_of q =
     (let count = py_str q in
      if count = ''>10'' then Inr 100
      else if count = ''1'' then Inr 0
      else py_int q)"

text \<open>
  \<open>offer_ids\<close> is a Python list that \<open>create_stocks\<close> mutates with \<open>offer_ids.remove\<close>
  (the first occurrence goes) and that the caller still holds afterwards. Both builders
  therefore take the list and give it back as the first component of their result, also
  when an exception ends the call; the second component is the exception or the returned
  list.
\<close>

fun stocks_loop ::
  "watch list \<Rightarrow> stock_update list \<Rightarrow> string list \<Rightarrow> string list \<times> (error + stock_update list)"
where
  "stocks_loop [] stocks offer_ids = (offer_ids, Inr stocks)"
| "stocks_loop (w # ws) stocks offer_ids =
     (if py_str (Kod w) \<in> set offer_ids
      then (case stock_of (Kolichestvo w) of
              Inl e \<Rightarrow> (offer_ids, Inl e)
            | Inr n \<Rightarrow>
                stocks_loop ws
                  (stocks @ [\<lparr>offer_id = py_str (Kod w), stock = n\<rparr>])
                  (remove1 (py_str (Kod w)) offer_ids))
      else stocks_loop ws stocks offer_ids)"

definition create_stocks ::
  "watch list \<Rightarrow> string list \<Rightarrow> string list \<times> (error + stock_update list)"
where
  "create_stocks watch_remnants offer_ids =
     (case stocks_loop watch_remnants [] offer_ids of
        (rest, Inl e) \<Rightarrow> (rest, Inl e)
      | (rest, Inr stocks) \<Rightarrow>
          (rest, Inr (stocks @ map (\<lambda>i. \<lparr>offer_id = i, stock = 0\<rparr>) rest)))"

fun prices_loop ::
  "watch list \<Rightarrow> price_update list \<Rightarrow> string list \<Rightarrow> string list \<times> (error + price_update list)"
where
  "prices_loop [] prices offer_ids = (offer_ids, Inr prices)"
| "prices_loop (w # ws) prices offer_ids =
     (if py_str (Kod w) \<in> set offer_ids
      then (case price_conversion (Tsena w) of
              Inl e \<Rightarrow> (offer_ids, Inl e)
            | Inr p \<Rightarrow>
                prices_loop ws
                  (prices @ [\<lparr>auto_action_enabled = ''UNKNOWN'', currency_code = ''RUB'',
                              price_offer_id = py_str (Kod w), old_price = ''0'',
                              price = p\<rparr>])
                  offer_ids)
      else prices_loop ws prices offer_ids)"

definition create_prices ::
  "watch list \<Rightarrow> string list \<Rightarrow> string list \<times> (error + price_update list)"
where
  "create_prices watch_remnants offer_ids = prices_loop watch_remnants [] offer_ids"

text \<open>
  The dictionary that \<open>create_prices\<close> builds for a record: three fixed fields, the
  record's code, and the price that \<open>price_conversion\<close> returns for the record's price.
\<close>

definition price_of :: "watch \<Rightarrow> price_update \<Rightarrow> bool" where
  "price_of w p =
     (auto_action_enabled p = ''UNKNOWN'' \<and> currency_code p = ''RUB''
      \<and> price_offer_id p = py_str (Kod w) \<and> old_price p = ''0''
      \<and> price_conversion (Tsena w) = Inr (price p))"

section \<open>\<open>divide\<close>\<close>

text \<open>
  \<open>range(start, stop, step)\<close>: a \<open>ValueError\<close> when the step is zero; otherwise the
  values from \<open>start\<close> in steps of \<open>step\<close>, below \<open>stop\<close> for a positive step and above
  it for a negative one.
\<close>

function range_from :: "int \<Rightarrow> int \<Rightarrow> int \<Rightarrow> int list" where
  "range_from i stop step =
     (if (0 < step \<and> i < stop) \<or> (step < 0 \<and> stop < i)
      then i # range_from (i + step) stop step
      else [])"
  by pat_completeness auto
termination
  by (relation "measure (\<lambda>(i, stop, step). nat (if 0 < step then stop - i else i - stop))") auto

declare range_from.simps [simp del]

definition py_range :: "int \<Rightarrow> int \<Rightarrow> int \<Rightarrow> error + int list" where
  "py_range start stop step =
     (if step = 0 then Inl ValueError else Inr (range_from start stop step))"

text \<open>
  The slice \<open>lst[a:b]\<close>: a negative bound counts from the end, and each bound is cut to
  the range of the list; a slice never raises.
\<close>

definition slice_bound :: "nat \<Rightarrow> int \<Rightarrow> nat" where
  "slice_bound len i = (if i < 0 then nat (max 0 (int len + i)) else min len (nat i))"

definition py_slice :: "'a list \<Rightarrow> int \<Rightarrow> int \<Rightarrow> 'a list" where
  "py_slice lst a b =
     (let lo = slice_bound (length lst) a; hi = slice_bound (length lst) b
      in take (hi - lo) (drop lo lst))"

text \<open>
  \<open>divide\<close> is a generator; every caller consumes it at once with \<open>list(divide(lst, n))\<close>,
  and that is what is modelled: the list of all the slices, or the exception that the
  first step of the generator raises.
\<close>

definition divide :: "'a list \<Rightarrow> int \<Rightarrow> error + 'a list list" where
  "divide lst n =
     (case py_range 0 (int (length lst)) n of
        Inl e \<Rightarrow> Inl e
      | Inr is \<Rightarrow> Inr (map (\<lambda>i. py_slice lst i (i + n)) is))"

section \<open>\<open>get_offer_ids\<close>\<close>

text \<open>
  The marketplace is a state machine: a request with the cursor \<open>last_id\<close> is answered
  by a page or fails (\<open>raise_for_status\<close>), and the state of the marketplace moves on.
  A product is the dictionary of one item; the code reads its \<open>offer_id\<close>.
\<close>

record product =
  product_offer_id :: string

record page =
  items :: "product list"
  total :: int
  last_id :: string

type_synonym 's server = "'s \<Rightarrow> string \<Rightarrow> (error + page) \<times> 's"

text \<open>
  The loop \<open>while True\<close> of \<open>get_offer_ids\<close>. It has no bound, so the model is a partial
  function: \<open>None\<close> is the run that never leaves the loop.
\<close>

partial_function (option) page_loop ::
  "'s server \<Rightarrow> 's \<Rightarrow> string \<Rightarrow> product list \<Rightarrow> (error + product list) option"
where
  "page_loop get_product_list st cursor product_list =
     (case get_product_list st cursor of
        (Inl e, st') \<Rightarrow> Some (Inl e)
      | (Inr some_prod, st') \<Rightarrow>
          (if total some_prod = int (length (product_list @ items some_prod))
           then Some (Inr (product_list @ items some_prod))
           else page_loop get_product_list st' (last_id some_prod)
                  (product_list @ items some_prod)))"


section \<open>\<open>main\<close>\<close>

text \<open>
  The two submitting calls \<open>update_stocks\<close> and \<open>update_price\<close> are requests to the
  marketplace, which accepts a request or fails it. \<open>send_all\<close> is the loop
  \<open>for some in chunks: update(some, ...)\<close>: it stops at the first failure and records what
  was sent.
\<close>

datatype request = UpdateStocks "stock_update list" | UpdatePrice "price_update list"

type_synonym 'a api = "'a \<Rightarrow> request \<Rightarrow> error option \<times> 'a"

fun send_all :: "'a api \<Rightarrow> 'a \<Rightarrow> request list \<Rightarrow> 'a \<times> request list \<times> error option" where
  "send_all api st [] = (st, [], None)"
| "send_all api st (r # rs) =
     (case api st r of
        (Some e, st') \<Rightarrow> (st', [r], Some e)
      | (None, st') \<Rightarrow>
          (case send_all api st' rs of (st'', sent, res) \<Rightarrow> (st'', r # sent, res)))"

text \<open>
  What one run of \<open>main\<close> does: the requests it sent, the price list it built (if it got
  that far) and the exception that its \<open>try\<close> caught (if any). The outcomes of
  \<open>get_offer_ids\<close> and of \<open>download_stock\<close> are inputs.
\<close>

record run =
  sent :: "request list"
  prices_built :: "price_update list option"
  caught :: "error option"

definition main ::
  "'a api \<Rightarrow> 'a \<Rightarrow> error + string list \<Rightarrow> error + watch list \<Rightarrow> run"
where
  "main api st got_offer_ids got_remnants =
     (case got_offer_ids of
        Inl e \<Rightarrow> \<lparr>sent = [], prices_built = None, caught = Some e\<rparr>
      | Inr offer_ids \<Rightarrow>
     (case got_remnants of
        Inl e \<Rightarrow> \<lparr>sent = [], prices_built = None, caught = Some e\<rparr>
      | Inr watch_remnants \<Rightarrow>
     (case create_stocks watch_remnants offer_ids of
        (offer_ids1, Inl e) \<Rightarrow> \<lparr>sent = [], prices_built = None, caught = Some e\<rparr>
      | (offer_ids1, Inr stocks) \<Rightarrow>
     (case divide stocks 100 of
        Inl e \<Rightarrow> \<lparr>sent = [], prices_built = None, caught = Some e\<rparr>
      | Inr stock_chunks \<Rightarrow>
     (case send_all api st (map UpdateStocks stock_chunks) of
        (st1, sent1, Some e) \<Rightarrow> \<lparr>sent = sent1, prices_built = None, caught = Some e\<rparr>
      | (st1, sent1, None) \<Rightarrow>
     (case create_prices watch_remnants offer_ids1 of
        (offer_ids2, Inl e) \<Rightarrow> \<lparr>sent = sent1, prices_built = None, caught = Some e\<rparr>
      | (offer_ids2, Inr prices) \<Rightarrow>
     (case divide prices 900 of
        Inl e \<Rightarrow> \<lparr>sent = sent1, prices_built = Some prices, caught = Some e\<rparr>
      | Inr price_chunks \<Rightarrow>
     (case send_all api st1 (map UpdatePrice price_chunks) of
        (st2, sent2, res) \<Rightarrow>
          \<lparr>sent = sent1 @ sent2, prices_built = Some prices, caught = res\<rparr>))))))))"

section \<open>Sample records\<close>

text \<open>
  Rows of a supplier's sheet, used to run the functions: an article with the quantity
  \<open>>10\<close>, one with a plain number, one whose cells are numbers of the sheet, one
  whose quantity is not a number, and one that has no price.
\<close>

definition watch_A :: watch where
  "watch_A = \<lparr>Kod = PStr ''A'', Kolichestvo = PStr ''>10'', Tsena = PStr ''100.00 p''\<rparr>"

definition watch_B7 :: watch where
  "watch_B7 = \<lparr>Kod = PStr ''B'', Kolichestvo = PStr ''7'', Tsena = PStr ''1'250.50 p''\<rparr>"

definition watch_X :: watch where
  "watch_X = \<lparr>Kod = PInt 505, Kolichestvo = PInt 3, Tsena = PStr ''80.00 p''\<rparr>"

definition watch_bad :: watch where
  "watch_bad = \<lparr>Kod = PStr ''A'', Kolichestvo = PStr ''abc'', Tsena = PStr ''100.00 p''\<rparr>"

definition watch_no_price :: watch where
  "watch_no_price = \<lparr>Kod = PStr ''A'', Kolichestvo = PStr ''2'', Tsena = PNone\<rparr>"

text \<open>
  A record with a given code and quantity, and the UTF-8 bytes of the fullwidth digit
  seven (U+FF17), which \<open>int\<close> reads as 7.
\<close>

definition watch_of :: "string \<Rightarrow> string \<Rightarrow> watch" where
  "watch_of code q = \<lparr>Kod = PStr code, Kolichestvo = PStr q, Tsena = PStr ''100.00 p''\<rparr>"

definition fullwidth_7 :: string where
  "fullwidth_7 = [CHR 0xEF, CHR 0xBC, CHR 0x97]"

text \<open>A marketplace that accepts every request.\<close>

definition accept_all :: "unit api" where
  "accept_all st r = (None, st)"



definition failing_server :: "unit server" where
  "failing_server st cursor = (Inl ApiError, st)"

section \<open>Lemmas on \<open>price_conversion\<close>\<close>

lemma py_split_first: "\<exists>ps. py_split sep s = takeWhile (\<lambda>c. c \<noteq> sep) s # ps"
  by (induction s) auto

lemma price_conversion_str:
  "price_conversion (PStr s) = Inr (filter is_digit (takeWhile (\<lambda>c. c \<noteq> CHR ''.'') s))"
proof -
  obtain ps where "py_split CHR ''.'' s = takeWhile (\<lambda>c. c \<noteq> CHR ''.'') s # ps"
    using py_split_first by blast
  then show ?thesis by (simp add: re_sub_non_digits_def)
qed

section \<open>Claims on \<open>price_conversion\<close>\<close>

text \<open>
  C3 (as amended). \<open>price_conversion\<close> of a string keeps what stands before the first
  \<open>.\<close> and deletes every character outside \<open>0-9\<close> from it: the docstring's price
  \<open>5'990.00\<close> with the rouble suffix gives \<open>5990\<close>, and \<open>199\<close> with the suffix gives \<open>199\<close>.
  It never fails on a string: when no digit is left, the value returned is the empty
  string.
\<close>

theorem price_conversion_digits_of_integer_part:
  "price_conversion (PStr s) = Inr (filter is_digit (takeWhile (\<lambda>c. c \<noteq> CHR ''.'') s))
   \<and> price_conversion (PStr s) \<noteq> Inl e
   \<and> (price_conversion (PStr s) = Inr []) = (filter is_digit (takeWhile (\<lambda>c. c \<noteq> CHR ''.'') s) = [])
   \<and> price_conversion (PStr price_5990) = Inr ''5990''
   \<and> price_conversion (PStr price_199) = Inr ''199''"
proof -
  have general: "\<And>r. price_conversion (PStr r) = Inr (filter is_digit (takeWhile (\<lambda>c. c \<noteq> CHR ''.'') r))"
    by (rule price_conversion_str)
  have ex1: "price_conversion (PStr price_5990) = Inr ''5990''"
    unfolding general by (simp add: price_5990_def rub_def is_digit_def)
  have ex2: "price_conversion (PStr price_199) = Inr ''199''"
    unfolding general by (simp add: price_199_def rub_def is_digit_def)
  show ?thesis using ex1 ex2 by (simp add: general del: price_conversion.simps)
qed

text \<open>
  C3 as the specification states it asks for a failure whenever nothing is left after
  the stripping. On the price \<open>abc\<close> nothing is left, and the function returns the empty
  string.
\<close>

theorem price_conversion_empty_result_counterexample:
  "price_conversion (PStr ''abc'') = Inr ''''"
  by (simp add: re_sub_non_digits_def is_digit_def)

section \<open>Lemmas on \<open>divide\<close>\<close>

lemma py_slice_step:
  assumes "0 \<le> i" "0 < n"
  shows "py_slice lst i (i + n) = take (nat n) (drop (nat i) lst)"
proof (cases "nat i < length lst")
  case True
  with assms have lo: "slice_bound (length lst) i = nat i"
    by (simp add: slice_bound_def)
  from assms have hi: "slice_bound (length lst) (i + n) = min (length lst) (nat i + nat n)"
    by (simp add: slice_bound_def nat_add_distrib)
  have "take (min (length lst) (nat i + nat n) - nat i) (drop (nat i) lst)
        = take (nat n) (drop (nat i) lst)"
    by (cases "length lst \<le> nat i + nat n") (simp_all add: min_def)
  then show ?thesis by (simp add: py_slice_def Let_def lo hi)
next
  case False
  with assms show ?thesis by (simp add: py_slice_def Let_def slice_bound_def)
qed

lemma range_from_pos:
  "0 < n \<Longrightarrow> range_from i stop n = (if i < stop then i # range_from (i + n) stop n else [])"
  by (subst range_from.simps) simp

lemma range_from_neg:
  "n < 0 \<Longrightarrow> 0 \<le> stop \<Longrightarrow> range_from 0 stop n = []"
  by (subst range_from.simps) simp

lemma concat_slices:
  "0 < n \<Longrightarrow> 0 \<le> i \<Longrightarrow>
   concat (map (\<lambda>j. py_slice lst j (j + n)) (range_from i (int (length lst)) n)) = drop (nat i) lst"
proof (induction i "int (length lst)" n rule: range_from.induct)
  case (1 i n)
  show ?case
  proof (cases "i < int (length lst)")
    case True
    with 1 have IH: "concat (map (\<lambda>j. py_slice lst j (j + n)) (range_from (i + n) (int (length lst)) n))
        = drop (nat (i + n)) lst" by simp
    have "drop (nat (i + n)) lst = drop (nat n) (drop (nat i) lst)"
      using 1(2,3) by (simp add: nat_add_distrib add.commute)
    with IH have "py_slice lst i (i + n) @
        concat (map (\<lambda>j. py_slice lst j (j + n)) (range_from (i + n) (int (length lst)) n))
        = drop (nat i) lst"
      using 1(2,3) by (simp only: py_slice_step append_take_drop_id)
    with True 1(2) show ?thesis
      by (subst range_from_pos) simp_all
  next
    case False
    with 1(2,3) show ?thesis by (subst range_from_pos) simp_all
  qed
qed

lemma slices_butlast:
  "0 < n \<Longrightarrow> 0 \<le> i \<Longrightarrow>
   c \<in> set (butlast (map (\<lambda>j. py_slice lst j (j + n)) (range_from i (int (length lst)) n))) \<Longrightarrow>
   length c = nat n"
proof (induction i "int (length lst)" n rule: range_from.induct)
  case (1 i n)
  show ?case
  proof (cases "i < int (length lst)")
    case True
    note lt = this
    show ?thesis
    proof (cases "i + n < int (length lst)")
      case True
      have r: "range_from (i + n) (int (length lst)) n \<noteq> []"
        using True 1(2) by (subst range_from_pos) simp_all
      have len: "length (py_slice lst i (i + n)) = nat n"
        using True 1(2,3) by (simp add: py_slice_step)
      from 1(4) have "c = py_slice lst i (i + n) \<or>
          c \<in> set (butlast (map (\<lambda>j. py_slice lst j (j + n)) (range_from (i + n) (int (length lst)) n)))"
        using lt 1(2) r by (subst (asm) range_from_pos) (simp_all)
      then show ?thesis using len 1(1)[OF _ 1(2)] lt 1(2,3) by auto
    next
      case False
      have r: "range_from (i + n) (int (length lst)) n = []"
        using False 1(2) by (subst range_from_pos) simp_all
      from 1(4) show ?thesis
        using lt 1(2) r by (subst (asm) range_from_pos) simp_all
    qed
  next
    case False
    with 1(2,4) show ?thesis by (subst (asm) range_from_pos) simp_all
  qed
qed

lemma slices_nonempty:
  "0 < n \<Longrightarrow> 0 \<le> i \<Longrightarrow>
   c \<in> set (map (\<lambda>j. py_slice lst j (j + n)) (range_from i (int (length lst)) n)) \<Longrightarrow>
   1 \<le> length c \<and> length c \<le> nat n"
proof (induction i "int (length lst)" n rule: range_from.induct)
  case (1 i n)
  show ?case
  proof (cases "i < int (length lst)")
    case True
    have "nat i < length lst" using True 1(3) by linarith
    then have len: "1 \<le> length (py_slice lst i (i + n)) \<and> length (py_slice lst i (i + n)) \<le> nat n"
      using 1(2,3) by (simp add: py_slice_step) linarith
    from 1(4) have "c = py_slice lst i (i + n) \<or>
        c \<in> set (map (\<lambda>j. py_slice lst j (j + n)) (range_from (i + n) (int (length lst)) n))"
      using True 1(2) by (subst (asm) range_from_pos) simp_all
    then show ?thesis using len 1(1)[OF _ 1(2)] True 1(2,3) by auto
  next
    case False
    with 1(2,4) show ?thesis by (subst (asm) range_from_pos) simp_all
  qed
qed

lemma divide_pos:
  "0 < n \<Longrightarrow> divide lst n = Inr (map (\<lambda>j. py_slice lst j (j + n)) (range_from 0 (int (length lst)) n))"
  by (simp add: divide_def py_range_def)

lemma divide_example: "divide [1, 2, 3, 4, 5 :: int] 2 = Inr [[1, 2], [3, 4], [5]]"
  by (simp add: divide_def py_range_def range_from.simps py_slice_def slice_bound_def)

lemma divide_zero: "divide lst 0 = Inl ValueError"
  by (simp add: divide_def py_range_def)

lemma divide_neg: "n < 0 \<Longrightarrow> divide lst n = Inr []"
  by (simp add: divide_def py_range_def range_from_neg)

section \<open>Claims on \<open>divide\<close>\<close>

text \<open>
  C5. For every list and every size of at least one, \<open>list(divide(lst, n))\<close> is a list
  of slices whose concatenation, in order, is \<open>lst\<close>; every slice but the last has
  exactly \<open>n\<close> elements, and every slice, the last included, has between one and \<open>n\<close>
  elements. In particular \<open>divide([1, 2, 3, 4, 5], 2)\<close> is \<open>[[1, 2], [3, 4], [5]]\<close>.
\<close>

theorem divide_concat:
  assumes "1 \<le> n"
  shows "(\<exists>chunks. divide lst n = Inr chunks
            \<and> concat chunks = lst
            \<and> (\<forall>c \<in> set (butlast chunks). length c = nat n)
            \<and> (\<forall>c \<in> set chunks. 1 \<le> length c \<and> length c \<le> nat n))
         \<and> divide [1, 2, 3, 4, 5 :: int] 2 = Inr [[1, 2], [3, 4], [5]]"
proof -
  let ?chunks = "map (\<lambda>j. py_slice lst j (j + n)) (range_from 0 (int (length lst)) n)"
  from assms have n: "0 < n" by simp
  have 1: "divide lst n = Inr ?chunks" using n by (rule divide_pos)
  have 2: "concat ?chunks = lst" using concat_slices [OF n, of 0 lst] by simp
  have 3: "\<forall>c \<in> set (butlast ?chunks). length c = nat n"
    using slices_butlast [OF n, of 0 _ lst] by blast
  have 4: "\<forall>c \<in> set ?chunks. 1 \<le> length c \<and> length c \<le> nat n"
    using slices_nonempty [OF n, of 0 _ lst] by blast
  from 1 2 3 4 divide_example show ?thesis by blast
qed

theorem divide_concat_witness:
  "(1 :: int) \<le> 3
   \<and> (\<exists>chunks. divide ''abcdefg'' 3 = Inr chunks
          \<and> concat chunks = ''abcdefg''
          \<and> (\<forall>c \<in> set (butlast chunks). length c = 3)
          \<and> (\<forall>c \<in> set chunks. 1 \<le> length c \<and> length c \<le> 3))"
  using divide_concat [of 3 "''abcdefg''"] by simp

text \<open>
  C6 (as amended). With the size zero, \<open>list(divide(lst, 0))\<close> raises the \<open>ValueError\<close> of
  \<open>range\<close>. With a negative size nothing is raised: the range is empty and the result
  is the empty list of chunks.
\<close>

theorem divide_nonpositive:
  "divide lst 0 = Inl ValueError \<and> (n < 0 \<longrightarrow> divide lst n = Inr [])"
  using divide_zero [of lst] divide_neg [of n lst] by blast

theorem divide_nonpositive_witness:
  "(- 1 :: int) < 0 \<and> divide [1, 2 :: int] 0 = Inl ValueError \<and> divide [1, 2 :: int] (- 1) = Inr []"
  using divide_nonpositive [of "[1, 2 :: int]" "- 1"] by simp

text \<open>
  C6 as the specification states it asks for a failure at every size below one. At the
  size \<open>-2\<close> the list \<open>[1, 2, 3]\<close> is divided into no chunk at all, without any exception.
\<close>

theorem divide_negative_size_counterexample:
  "divide [1, 2, 3 :: int] (- 2) = Inr []"
  by (simp add: divide_def py_range_def range_from.simps)

section \<open>Lemmas on the loop of \<open>create_stocks\<close>\<close>

lemma stocks_loop_mset:
  "stocks_loop ws acc ids = (rest, Inr st) \<Longrightarrow>
   mset (map offer_id st) + mset rest = mset (map offer_id acc) + mset ids"
proof (induction ws arbitrary: acc ids)
  case Nil
  then show ?case by simp
next
  case (Cons w ws)
  show ?case
  proof (cases "py_str (Kod w) \<in> set ids")
    case True
    then obtain n where n: "stock_of (Kolichestvo w) = Inr n"
      using Cons.prems by (cases "stock_of (Kolichestvo w)") auto
    with True Cons.prems have
      "stocks_loop ws (acc @ [\<lparr>offer_id = py_str (Kod w), stock = n\<rparr>]) (remove1 (py_str (Kod w)) ids)
       = (rest, Inr st)" by simp
    from Cons.IH [OF this] True show ?thesis by simp
  next
    case False
    with Cons.prems have "stocks_loop ws acc ids = (rest, Inr st)" by simp
    from Cons.IH [OF this] show ?thesis .
  qed
qed

lemma distinct_remove1_filter:
  "distinct xs \<Longrightarrow> remove1 x xs = filter (\<lambda>i. i \<noteq> x) xs"
proof (induction xs)
  case Nil
  then show ?case by simp
next
  case (Cons a xs)
  show ?case
  proof (cases "a = x")
    case True
    with Cons.prems have "x \<notin> set xs" by simp
    then have "filter (\<lambda>i. i \<noteq> x) xs = xs" by (auto simp: filter_id_conv)
    with True show ?thesis by simp
  next
    case False
    with Cons show ?thesis by simp
  qed
qed

lemma stocks_loop_rest:
  "distinct ids \<Longrightarrow> stocks_loop ws acc ids = (rest, Inr st) \<Longrightarrow>
   rest = filter (\<lambda>i. i \<notin> (\<lambda>w. py_str (Kod w)) ` set ws) ids"
proof (induction ws arbitrary: acc ids)
  case Nil
  then show ?case by simp
next
  case (Cons w ws)
  show ?case
  proof (cases "py_str (Kod w) \<in> set ids")
    case True
    then obtain n where n: "stock_of (Kolichestvo w) = Inr n"
      using Cons.prems by (cases "stock_of (Kolichestvo w)") auto
    with True Cons.prems have
      "stocks_loop ws (acc @ [\<lparr>offer_id = py_str (Kod w), stock = n\<rparr>]) (remove1 (py_str (Kod w)) ids)
       = (rest, Inr st)" by simp
    from Cons.IH [OF _ this] Cons.prems(1)
    have "rest = filter (\<lambda>i. i \<notin> (\<lambda>w. py_str (Kod w)) ` set ws) (remove1 (py_str (Kod w)) ids)"
      by simp
    also have "remove1 (py_str (Kod w)) ids = filter (\<lambda>i. i \<noteq> py_str (Kod w)) ids"
      using Cons.prems(1) by (rule distinct_remove1_filter)
    finally show ?thesis by (simp add: conj_commute)
  next
    case False
    with Cons.prems have "stocks_loop ws acc ids = (rest, Inr st)" by simp
    from Cons.IH [OF Cons.prems(1) this]
    have "rest = filter (\<lambda>i. i \<notin> (\<lambda>w. py_str (Kod w)) ` set ws) ids" .
    also have "\<dots> = filter (\<lambda>i. i \<notin> (\<lambda>w. py_str (Kod w)) ` set (w # ws)) ids"
      using False by (intro filter_cong) auto
    finally show ?thesis .
  qed
qed

lemma subseq_remove1: "subseq (remove1 x xs) xs"
  by (induction xs) auto

lemma stocks_loop_subseq:
  "stocks_loop ws acc ids = (rest, r) \<Longrightarrow> subseq rest ids"
proof (induction ws arbitrary: acc ids)
  case Nil
  then show ?case by simp
next
  case (Cons w ws)
  show ?case
  proof (cases "py_str (Kod w) \<in> set ids")
    case True
    show ?thesis
    proof (cases "stock_of (Kolichestvo w)")
      case (Inl e)
      with True Cons.prems show ?thesis by simp
    next
      case (Inr n)
      with True Cons.prems have
        "stocks_loop ws (acc @ [\<lparr>offer_id = py_str (Kod w), stock = n\<rparr>]) (remove1 (py_str (Kod w)) ids)
         = (rest, r)" by simp
      from Cons.IH [OF this] have "subseq rest (remove1 (py_str (Kod w)) ids)" .
      then show ?thesis by (rule subseq_order.order_trans) (rule subseq_remove1)
    qed
  next
    case False
    with Cons.prems have "stocks_loop ws acc ids = (rest, r)" by simp
    from Cons.IH [OF this] show ?thesis .
  qed
qed

lemma stocks_loop_covered:
  "stocks_loop ws acc ids = (rest, Inr st) \<Longrightarrow>
   \<exists>matched covered. st = acc @ covered \<and> subseq matched ws
     \<and> list_all2 (\<lambda>w u. offer_id u = py_str (Kod w) \<and> stock_of (Kolichestvo w) = Inr (stock u)) matched covered
     \<and> (\<forall>w \<in> set matched. py_str (Kod w) \<in> set ids)"
proof (induction ws arbitrary: acc ids)
  case Nil
  then show ?case by simp
next
  case (Cons w ws)
  show ?case
  proof (cases "py_str (Kod w) \<in> set ids")
    case True
    then obtain n where n: "stock_of (Kolichestvo w) = Inr n"
      using Cons.prems by (cases "stock_of (Kolichestvo w)") auto
    let ?u = "\<lparr>offer_id = py_str (Kod w), stock = n\<rparr>"
    from n True Cons.prems have
      "stocks_loop ws (acc @ [?u]) (remove1 (py_str (Kod w)) ids) = (rest, Inr st)" by simp
    from Cons.IH [OF this] obtain matched covered where
      m: "st = (acc @ [?u]) @ covered" "subseq matched ws"
         "list_all2 (\<lambda>w u. offer_id u = py_str (Kod w) \<and> stock_of (Kolichestvo w) = Inr (stock u)) matched covered"
         "\<forall>w' \<in> set matched. py_str (Kod w') \<in> set (remove1 (py_str (Kod w)) ids)"
      by blast
    have "st = acc @ (?u # covered)" using m(1) by simp
    moreover have "subseq (w # matched) (w # ws)" using m(2) by simp
    moreover have "list_all2 (\<lambda>w u. offer_id u = py_str (Kod w) \<and> stock_of (Kolichestvo w) = Inr (stock u))
        (w # matched) (?u # covered)" using m(3) n by simp
    moreover have "\<forall>w' \<in> set (w # matched). py_str (Kod w') \<in> set ids"
      using m(4) True set_remove1_subset [of "py_str (Kod w)" ids] by auto
    ultimately show ?thesis by blast
  next
    case False
    with Cons.prems have "stocks_loop ws acc ids = (rest, Inr st)" by simp
    from Cons.IH [OF this] obtain matched covered where
      m: "st = acc @ covered" "subseq matched ws"
         "list_all2 (\<lambda>w u. offer_id u = py_str (Kod w) \<and> stock_of (Kolichestvo w) = Inr (stock u)) matched covered"
         "\<forall>w \<in> set matched. py_str (Kod w) \<in> set ids"
      by blast
    have "subseq matched (w # ws)" using m(2) by (rule list_emb_Cons)
    with m show ?thesis by blast
  qed
qed

lemma stocks_loop_error:
  "stocks_loop ws acc ids = (rest, Inl e) \<Longrightarrow>
   \<exists>w \<in> set ws. py_str (Kod w) \<in> set ids \<and> stock_of (Kolichestvo w) = Inl e"
proof (induction ws arbitrary: acc ids)
  case Nil
  then show ?case by simp
next
  case (Cons w ws)
  show ?case
  proof (cases "py_str (Kod w) \<in> set ids")
    case True
    show ?thesis
    proof (cases "stock_of (Kolichestvo w)")
      case (Inl e')
      with True Cons.prems show ?thesis by auto
    next
      case (Inr n)
      with True Cons.prems have
        "stocks_loop ws (acc @ [\<lparr>offer_id = py_str (Kod w), stock = n\<rparr>]) (remove1 (py_str (Kod w)) ids)
         = (rest, Inl e)" by simp
      from Cons.IH [OF this] obtain w' where
        "w' \<in> set ws" "py_str (Kod w') \<in> set (remove1 (py_str (Kod w)) ids)"
        "stock_of (Kolichestvo w') = Inl e" by blast
      moreover from this(2) have "py_str (Kod w') \<in> set ids"
        using set_remove1_subset [of "py_str (Kod w)" ids] by blast
      ultimately show ?thesis by auto
    qed
  next
    case False
    with Cons.prems have "stocks_loop ws acc ids = (rest, Inl e)" by simp
    from Cons.IH [OF this] show ?thesis by auto
  qed
qed

section \<open>Lemmas on \<open>create_stocks\<close>\<close>

lemma create_stocks_Inr:
  "create_stocks feed ids = (rest, Inr stocks) \<Longrightarrow>
   \<exists>st. stocks_loop feed [] ids = (rest, Inr st) \<and> stocks = st @ map (\<lambda>i. \<lparr>offer_id = i, stock = 0\<rparr>) rest"
  by (auto simp: create_stocks_def split: prod.splits sum.splits)

lemma create_stocks_Inl:
  "create_stocks feed ids = (rest, Inl e) \<Longrightarrow> stocks_loop feed [] ids = (rest, Inl e)"
  by (auto simp: create_stocks_def split: prod.splits sum.splits)

lemma create_stocks_mset:
  assumes "create_stocks feed ids = (rest, Inr stocks)"
  shows "mset (map offer_id stocks) = mset ids"
proof -
  from create_stocks_Inr [OF assms] obtain st where
    st: "stocks_loop feed [] ids = (rest, Inr st)"
        "stocks = st @ map (\<lambda>i. \<lparr>offer_id = i, stock = 0\<rparr>) rest" by blast
  have "map offer_id (map (\<lambda>i. \<lparr>offer_id = i, stock = 0\<rparr>) rest) = rest"
    by (induction rest) simp_all
  then have "mset (map offer_id stocks) = mset (map offer_id st) + mset rest"
    using st(2) by simp
  with stocks_loop_mset [OF st(1)] show ?thesis by simp
qed

lemma stock_of_simps:
  "stock_of (PStr ''>10'') = Inr 100"
  "stock_of (PStr ''1'') = Inr 0"
  "stock_of (PStr ''7'') = Inr 7"
  "stock_of (PStr ''abc'') = Inl ValueError"
  "stock_of (PInt 3) = Inr 3"
  by code_simp+

lemma run_AB:
  "create_stocks [watch_A] [''A'', ''B'']
   = ([''B''], Inr [\<lparr>offer_id = ''A'', stock = 100\<rparr>, \<lparr>offer_id = ''B'', stock = 0\<rparr>])"
  by (simp add: create_stocks_def watch_A_def stock_of_simps)

lemma run_bad: "create_stocks [watch_bad] [''A''] = ([''A''], Inl ValueError)"
  by (simp add: create_stocks_def watch_bad_def stock_of_simps)


section \<open>Claims on \<open>create_stocks\<close>\<close>

text \<open>
  C1 (as amended). For every feed and every catalog list without duplicates,
  \<open>create_stocks\<close> either raises, and then some record of the feed whose code is in the
  catalog has a quantity on which the stock computation raises that exception, or it
  returns exactly as many updates as the catalog has identifiers; their \<open>offer_id\<close>s
  are the catalog's identifiers, each in exactly one update, and an identifier that is
  the code of no record of the feed has the update with stock zero.
\<close>

theorem create_stocks_one_update_per_offer:
  assumes "distinct offer_ids"
  shows "case create_stocks feed offer_ids of
           (rest, Inl e) \<Rightarrow>
             (\<exists>w \<in> set feed. py_str (Kod w) \<in> set offer_ids \<and> stock_of (Kolichestvo w) = Inl e)
         | (rest, Inr stocks) \<Rightarrow>
             length stocks = length offer_ids
             \<and> distinct (map offer_id stocks)
             \<and> set (map offer_id stocks) = set offer_ids
             \<and> (\<forall>i \<in> set offer_ids. i \<notin> (\<lambda>w. py_str (Kod w)) ` set feed
                    \<longrightarrow> \<lparr>offer_id = i, stock = 0\<rparr> \<in> set stocks)"
proof (cases "create_stocks feed offer_ids")
  case (Pair rest r)
  show ?thesis
  proof (cases r)
    case (Inl e)
    with Pair have "stocks_loop feed [] offer_ids = (rest, Inl e)"
      by (simp add: create_stocks_Inl)
    from stocks_loop_error [OF this] Pair Inl show ?thesis by simp
  next
    case (Inr stocks)
    with Pair have cs: "create_stocks feed offer_ids = (rest, Inr stocks)" by simp
    have m: "mset (map offer_id stocks) = mset offer_ids" using cs by (rule create_stocks_mset)
    have len: "length stocks = length offer_ids" using mset_eq_length [OF m] by simp
    have dist: "distinct (map offer_id stocks)"
      using mset_eq_imp_distinct_iff [OF m] assms by simp
    have set_eq: "set (map offer_id stocks) = set offer_ids" using m by (rule mset_eq_setD)
    from create_stocks_Inr [OF cs] obtain st where
      st: "stocks_loop feed [] offer_ids = (rest, Inr st)"
          "stocks = st @ map (\<lambda>i. \<lparr>offer_id = i, stock = 0\<rparr>) rest" by blast
    have rest: "rest = filter (\<lambda>i. i \<notin> (\<lambda>w. py_str (Kod w)) ` set feed) offer_ids"
      using assms st(1) by (rule stocks_loop_rest)
    have zero: "\<forall>i \<in> set offer_ids. i \<notin> (\<lambda>w. py_str (Kod w)) ` set feed
                    \<longrightarrow> \<lparr>offer_id = i, stock = 0\<rparr> \<in> set stocks"
    proof (intro ballI impI)
      fix i assume "i \<in> set offer_ids" "i \<notin> (\<lambda>w. py_str (Kod w)) ` set feed"
      then have "i \<in> set rest" by (subst rest) simp
      then show "\<lparr>offer_id = i, stock = 0\<rparr> \<in> set stocks" using st(2) by simp
    qed
    from len dist set_eq zero Pair Inr show ?thesis by simp
  qed
qed

theorem create_stocks_one_update_per_offer_witness:
  "distinct [''A'', ''B'']
   \<and> (\<exists>rest stocks. create_stocks [watch_A] [''A'', ''B''] = (rest, Inr stocks)
          \<and> length stocks = 2
          \<and> distinct (map offer_id stocks)
          \<and> set (map offer_id stocks) = {''A'', ''B''}
          \<and> \<lparr>offer_id = ''B'', stock = 0\<rparr> \<in> set stocks)
   \<and> create_stocks [watch_bad] [''A''] = ([''A''], Inl ValueError)
   \<and> (\<exists>w \<in> set [watch_bad]. py_str (Kod w) \<in> set [''A'']
          \<and> stock_of (Kolichestvo w) = Inl ValueError)"
proof -
  have returns: "\<exists>rest stocks. create_stocks [watch_A] [''A'', ''B''] = (rest, Inr stocks)
          \<and> length stocks = 2
          \<and> distinct (map offer_id stocks)
          \<and> set (map offer_id stocks) = {''A'', ''B''}
          \<and> \<lparr>offer_id = ''B'', stock = 0\<rparr> \<in> set stocks"
    using create_stocks_one_update_per_offer [of "[''A'', ''B'']" "[watch_A]"]
    unfolding run_AB by (simp add: watch_A_def)
  have raises: "\<exists>w \<in> set [watch_bad]. py_str (Kod w) \<in> set [''A'']
          \<and> stock_of (Kolichestvo w) = Inl ValueError"
    using create_stocks_one_update_per_offer [of "[''A'']" "[watch_bad]"]
    unfolding run_bad by simp
  from returns raises run_bad show ?thesis by simp
qed

text \<open>
  C1 as the specification states it promises the updates for every feed. A feed whose
  only record carries the quantity \<open>abc\<close> for a catalog code makes \<open>create_stocks\<close>
  raise \<open>ValueError\<close>: no list is returned.
\<close>

theorem create_stocks_malformed_quantity_counterexample:
  "create_stocks [watch_bad] [''A''] = ([''A''], Inl ValueError)"
  by (rule run_bad)



section \<open>Lemmas on \<open>int\<close> and on the stock of a quantity\<close>

lemma digit_not_space: "is_digit c \<Longrightarrow> \<not> is_space c"
  by (auto simp: is_digit_def is_space_def)

lemma digit_not_special:
  "is_digit c \<Longrightarrow> c \<noteq> CHR ''_'' \<and> c \<noteq> CHR ''-'' \<and> c \<noteq> CHR ''+'' \<and> c \<noteq> CHR ''>''"
  by (auto simp: is_digit_def)

lemma digit_ascii: "is_digit c \<Longrightarrow> is_ascii c"
  by (simp add: is_digit_def is_ascii_def)

lemma digits_us_digits:
  "s \<noteq> [] \<Longrightarrow> \<forall>c \<in> set s. is_digit c \<Longrightarrow>
   digits_us s acc = Some (foldl (\<lambda>a c. a * 10 + digit_val c) acc s)"
proof (induction s acc rule: digits_us.induct)
  case (1 acc)
  then show ?case by simp
next
  case (2 c acc)
  then show ?case by simp
next
  case (3 c d ds acc)
  from "3.prems" have c: "is_digit c" and d: "is_digit d" by simp_all
  from d have "d \<noteq> CHR ''_''" using digit_not_special by blast
  with c "3.IH"(2) "3.prems" show ?case by simp
qed

lemma strip_no_space:
  assumes "\<forall>c \<in> set s. \<not> is_space c"
  shows "strip s = s"
proof -
  have keep: "\<And>xs. \<forall>c \<in> set xs. \<not> is_space c \<Longrightarrow> dropWhile is_space xs = xs"
  proof -
    fix xs :: string
    assume "\<forall>c \<in> set xs. \<not> is_space c"
    then show "dropWhile is_space xs = xs" by (cases xs) simp_all
  qed
  have a: "dropWhile is_space s = s" using assms by (rule keep)
  have "dropWhile is_space (rev s) = rev s" using assms by (intro keep) simp
  with a show ?thesis by (simp add: strip_def)
qed

lemma int_of_ascii_digits:
  assumes "s \<noteq> []" "\<forall>c \<in> set s. is_digit c" "length s \<le> 4300"
  shows "int_of_ascii s = Some (int (decimal s))"
proof -
  from assms(2) have "strip s = s" by (intro strip_no_space) (auto dest: digit_not_space)
  moreover obtain c cs where s: "s = c # cs" using assms(1) by (cases s) auto
  moreover have "c \<noteq> CHR ''-''" "c \<noteq> CHR ''+''" using assms(2) s digit_not_special by auto
  moreover have "digits_us s 0 = Some (decimal s)"
    unfolding decimal_def using assms(1,2) by (rule digits_us_digits)
  moreover have "filter is_digit s = s" using assms(2) by (simp add: filter_id_conv)
  ultimately show ?thesis using assms(3)
    by (simp add: int_of_ascii_def digits_value_def int_max_str_digits_def)
qed

lemma int_of_str_digits:
  assumes "s \<noteq> []" "\<forall>c \<in> set s. is_digit c" "length s \<le> 4300"
  shows "int_of_str s = Some (int (decimal s))"
proof -
  from assms(2) have "list_all is_ascii s" by (simp add: list_all_iff digit_ascii)
  with int_of_ascii_digits [OF assms] show ?thesis
    by (simp add: int_of_str_def transform_decimal_and_space_def)
qed

lemma stock_of_digits:
  assumes "s \<noteq> []" "\<forall>c \<in> set s. is_digit c" "length s \<le> 4300" "s \<noteq> ''1''"
  shows "stock_of (PStr s) = Inr (int (decimal s))"
proof -
  obtain c cs where s: "s = c # cs" using assms(1) by (cases s) auto
  with assms(2) have "c \<noteq> CHR ''>''" using digit_not_special by auto
  with s have "s \<noteq> ''>10''" by auto
  with assms(4) int_of_str_digits [OF assms(1,2,3)] show ?thesis
    by (simp add: stock_of_def)
qed

lemma digits_us_alphabet:
  "digits_us s acc = Some v \<Longrightarrow> \<forall>c \<in> set s. is_digit c \<or> c = CHR ''_''"
proof (induction s acc rule: digits_us.induct)
  case (1 acc)
  then show ?case by simp
next
  case (2 c acc)
  then show ?case by (simp split: if_splits)
next
  case (3 c d ds acc)
  show ?case
  proof (cases "is_digit c")
    case False
    with "3.prems" show ?thesis by simp
  next
    case True
    show ?thesis
    proof (cases "d = CHR ''_''")
      case u: True
      with True "3.prems" have "digits_us ds (acc * 10 + digit_val c) = Some v" by simp
      from "3.IH"(1) [OF True u this] True u show ?thesis by simp
    next
      case nu: False
      with True "3.prems" have "digits_us (d # ds) (acc * 10 + digit_val c) = Some v" by simp
      from "3.IH"(2) [OF True nu this] True show ?thesis by simp
    qed
  qed
qed

lemma digits_value_foreign:
  assumes "c \<in> set s" "foreign c"
  shows "digits_value s = None"
proof (cases "digits_us s 0")
  case None
  then show ?thesis by (simp add: digits_value_def)
next
  case (Some v)
  from digits_us_alphabet [OF this] assms show ?thesis by (auto simp: foreign_def)
qed

lemma dropWhile_keeps: "c \<in> set s \<Longrightarrow> \<not> P c \<Longrightarrow> c \<in> set (dropWhile P s)"
  by (induction s) auto

lemma strip_keeps:
  assumes "c \<in> set s" "\<not> is_space c"
  shows "c \<in> set (strip s)"
proof -
  from assms have "c \<in> set (dropWhile is_space s)" by (rule dropWhile_keeps)
  then have "c \<in> set (rev (dropWhile is_space s))" by simp
  then have "c \<in> set (dropWhile is_space (rev (dropWhile is_space s)))"
    using assms(2) by (rule dropWhile_keeps)
  then show ?thesis by (simp add: strip_def)
qed

lemma int_of_ascii_foreign:
  assumes "c \<in> set a" "foreign c"
  shows "int_of_ascii a = None"
proof -
  from assms have in_strip: "c \<in> set (strip a)" by (intro strip_keeps) (simp_all add: foreign_def)
  then obtain x xs where sx: "strip a = x # xs" by (cases "strip a") auto
  have whole: "digits_value (x # xs) = None"
    using in_strip sx assms(2) by (intro digits_value_foreign [of c]) simp_all
  show ?thesis
  proof (cases "x = CHR ''-'' \<or> x = CHR ''+''")
    case True
    with in_strip sx assms(2) have "c \<in> set xs" by (auto simp: foreign_def)
    then have "digits_value xs = None" using assms(2) by (rule digits_value_foreign)
    with True sx show ?thesis by (auto simp: int_of_ascii_def)
  next
    case False
    with whole sx show ?thesis by (simp add: int_of_ascii_def)
  qed
qed

lemma utf8_decode_ascii:
  "list_all is_ascii s \<Longrightarrow> utf8_decode s = Some (map of_char s)"
  by (induction s) (simp_all add: utf8_decode.simps is_ascii_def utf8_length_def utf8_value_def)

lemma of_char_eq_nat: "((of_char c :: nat) = of_char d) = (c = d)"
  by (rule of_char_eq_iff)

lemma ascii_not_numeric_foreign:
  assumes "\<not> numeric_char (of_char c)" "is_ascii c"
  shows "foreign c"
proof -
  have u: "(of_char c :: nat) = 95 \<longleftrightarrow> c = CHR ''_''"
    using of_char_eq_nat [of c "CHR ''_''"] by simp
  have p: "(of_char c :: nat) = 43 \<longleftrightarrow> c = CHR ''+''"
    using of_char_eq_nat [of c "CHR ''+''"] by simp
  have m: "(of_char c :: nat) = 45 \<longleftrightarrow> c = CHR ''-''"
    using of_char_eq_nat [of c "CHR ''-''"] by simp
  from assms u p m show ?thesis
    by (auto simp: numeric_char_def is_ascii_def foreign_def is_digit_def is_space_def)
qed

lemma question_foreign: "foreign CHR ''?''"
  by (simp add: foreign_def is_digit_def is_space_def)

lemma unicode_127: "\<not> unicode_space 127" "unicode_decimal 127 = None"
  by (simp_all add: unicode_space_def unicode_decimal_def decimal_zeros_def)

lemma ascii_form_foreign:
  "cp \<in> set cps \<Longrightarrow> \<not> numeric_char cp \<Longrightarrow> \<exists>c \<in> set (ascii_form cps). foreign c"
proof (induction cps)
  case Nil
  then show ?case by simp
next
  case (Cons x xs)
  show ?case
  proof (cases "x < 127")
    case True
    show ?thesis
    proof (cases "cp = x")
      case eq: True
      from True have oc: "(of_char (char_of x :: char) :: nat) = x" by simp
      with True have "is_ascii (char_of x)" by (simp add: is_ascii_def)
      moreover from oc eq Cons.prems(2) have "\<not> numeric_char (of_char (char_of x :: char))" by simp
      ultimately have "foreign (char_of x)" by (intro ascii_not_numeric_foreign)
      with True show ?thesis by auto
    next
      case False
      with Cons.prems have "cp \<in> set xs" by simp
      from Cons.IH [OF this Cons.prems(2)] True show ?thesis by auto
    qed
  next
    case big: False
    show ?thesis
    proof (cases "unicode_space x")
      case True
      with unicode_127(1) big have "128 \<le> x" by (cases "x = 127") auto
      with True have "numeric_char x" by (simp add: numeric_char_def)
      with Cons.prems have "cp \<in> set xs" by auto
      from Cons.IH [OF this Cons.prems(2)] big True show ?thesis by auto
    next
      case nsp: False
      show ?thesis
      proof (cases "unicode_decimal x")
        case None
        with big nsp question_foreign show ?thesis by simp
      next
        case (Some d)
        with unicode_127(2) big have "128 \<le> x" by (cases "x = 127") auto
        with Some have "numeric_char x" by (simp add: numeric_char_def)
        with Cons.prems have "cp \<in> set xs" by auto
        from Cons.IH [OF this Cons.prems(2)] big nsp Some show ?thesis by auto
      qed
    qed
  qed
qed

lemma int_of_str_foreign:
  assumes "utf8_decode t = Some cps" "cp \<in> set cps" "\<not> numeric_char cp"
  shows "int_of_str t = None"
proof (cases "list_all is_ascii t")
  case True
  with assms(1) have "cps = map of_char t" by (simp add: utf8_decode_ascii)
  with assms(2) obtain c where c: "c \<in> set t" "cp = of_char c" by auto
  with True have "is_ascii c" by (simp add: list_all_iff)
  with c(2) assms(3) have "foreign c" by (intro ascii_not_numeric_foreign) simp_all
  with c(1) have "int_of_ascii t = None" by (rule int_of_ascii_foreign)
  with True show ?thesis by (simp add: int_of_str_def transform_decimal_and_space_def)
next
  case False
  from ascii_form_foreign [OF assms(2,3)] obtain c where
    "c \<in> set (ascii_form cps)" "foreign c" by blast
  then have "int_of_ascii (ascii_form cps) = None" by (rule int_of_ascii_foreign)
  with False assms(1) show ?thesis by (simp add: int_of_str_def transform_decimal_and_space_def)
qed

lemma stock_of_rejected:
  assumes "s \<noteq> ''>10''" "s \<noteq> ''1''" "int_of_str s = None"
  shows "stock_of (PStr s) = Inl ValueError"
  using assms by (simp add: stock_of_def)

lemma utf8_decode_1: "utf8_decode ''1'' = Some [49]"
  by (simp add: utf8_decode.simps utf8_length_def utf8_value_def)

lemma stock_of_foreign:
  assumes "t \<noteq> ''>10''" "utf8_decode t = Some cps" "cp \<in> set cps" "\<not> numeric_char cp"
  shows "stock_of (PStr t) = Inl ValueError"
proof -
  have "t \<noteq> ''1''"
  proof
    assume "t = ''1''"
    with assms(2) utf8_decode_1 have "cps = [49]" by simp
    with assms(3,4) show False by (simp add: numeric_char_def)
  qed
  with assms(1) int_of_str_foreign [OF assms(2,3,4)] show ?thesis
    by (simp add: stock_of_rejected)
qed

lemma int_of_str_too_long:
  assumes "\<forall>c \<in> set s. is_digit c" "4300 < length s"
  shows "int_of_str s = None"
proof -
  from assms(2) obtain c cs where s: "s = c # cs" by (cases s) auto
  from assms(1) have "list_all is_ascii s" by (simp add: list_all_iff digit_ascii)
  moreover from assms(1) have "strip s = s" by (intro strip_no_space) (auto dest: digit_not_space)
  moreover have "c \<noteq> CHR ''-''" "c \<noteq> CHR ''+''" using assms(1) s digit_not_special by auto
  moreover have "filter is_digit s = s" using assms(1) by (simp add: filter_id_conv)
  then have "digits_value s = None"
    using assms(2) by (simp add: digits_value_def int_max_str_digits_def split: option.splits)
  ultimately show ?thesis using s
    by (simp add: int_of_str_def transform_decimal_and_space_def int_of_ascii_def)
qed

lemma stock_of_too_long:
  assumes "\<forall>c \<in> set s. is_digit c" "4300 < length s"
  shows "stock_of (PStr s) = Inl ValueError"
proof -
  from assms(2) have "s \<noteq> ''>10''" "s \<noteq> ''1''" by auto
  with int_of_str_too_long [OF assms] show ?thesis by (simp add: stock_of_rejected)
qed

lemma stocks_loop_append:
  "stocks_loop (xs @ ys) acc ids =
     (case stocks_loop xs acc ids of
        (ids', Inl e) \<Rightarrow> (ids', Inl e)
      | (ids', Inr st) \<Rightarrow> stocks_loop ys st ids')"
  by (induction xs arbitrary: acc ids) (simp_all split: sum.splits)

lemma stocks_loop_extends:
  assumes "stocks_loop ws acc ids = (rest, Inr st)"
  shows "\<exists>more. st = acc @ more"
  using stocks_loop_covered [OF assms] by blast

lemma create_stocks_reach_raises:
  assumes "stocks_loop pre [] offer_ids = (ids1, Inr st1)"
    and "py_str (Kod w) \<in> set ids1"
    and "stock_of (Kolichestvo w) = Inl e"
  shows "create_stocks (pre @ w # post) offer_ids = (ids1, Inl e)"
  using assms by (simp add: create_stocks_def stocks_loop_append)

lemma create_stocks_reach_last:
  assumes "stocks_loop pre [] offer_ids = (ids1, Inr st1)"
    and "py_str (Kod w) \<in> set ids1"
    and "stock_of (Kolichestvo w) = Inr n"
  shows "create_stocks (pre @ [w]) offer_ids
         = (remove1 (py_str (Kod w)) ids1,
            Inr (st1 @ \<lparr>offer_id = py_str (Kod w), stock = n\<rparr>
                   # map (\<lambda>i. \<lparr>offer_id = i, stock = 0\<rparr>) (remove1 (py_str (Kod w)) ids1)))"
  using assms by (simp add: create_stocks_def stocks_loop_append)

lemma create_stocks_reach_position:
  assumes "stocks_loop pre [] offer_ids = (ids1, Inr st1)"
    and "py_str (Kod w) \<in> set ids1"
    and "stock_of (Kolichestvo w) = Inr n"
    and "create_stocks (pre @ w # post) offer_ids = (rest, Inr stocks)"
  shows "take (Suc (length st1)) stocks = st1 @ [\<lparr>offer_id = py_str (Kod w), stock = n\<rparr>]"
proof -
  from create_stocks_Inr [OF assms(4)] obtain st where
    st: "stocks_loop (pre @ w # post) [] offer_ids = (rest, Inr st)"
        "stocks = st @ map (\<lambda>i. \<lparr>offer_id = i, stock = 0\<rparr>) rest" by blast
  from st(1) assms(1,2,3) have
    "stocks_loop post (st1 @ [\<lparr>offer_id = py_str (Kod w), stock = n\<rparr>])
       (remove1 (py_str (Kod w)) ids1) = (rest, Inr st)"
    by (simp add: stocks_loop_append)
  from stocks_loop_extends [OF this] obtain more where
    "st = (st1 @ [\<lparr>offer_id = py_str (Kod w), stock = n\<rparr>]) @ more" by blast
  with st(2) show ?thesis by simp
qed

lemma reach_B7:
  "stocks_loop [watch_B7] [] [''A'', ''B'', ''C'']
   = ([''A'', ''C''], Inr [\<lparr>offer_id = ''B'', stock = 7\<rparr>])"
  by (simp add: watch_B7_def stock_of_simps)

lemma decimal_42: "decimal ''42'' = 42"
  by code_simp

lemma int_of_str_abc: "int_of_str ''abc'' = None"
  by code_simp

lemma fullwidth_7_not_ascii: "\<not> list_all is_ascii fullwidth_7"
  by (simp add: fullwidth_7_def is_ascii_def)

lemma utf8_decode_fullwidth_7: "utf8_decode fullwidth_7 = Some [65303]"
  by (simp add: fullwidth_7_def utf8_decode.simps utf8_length_def utf8_value_def continuation_def)

lemma unicode_decimal_fullwidth_7: "unicode_decimal 65303 = Some 7"
  by (simp add: unicode_decimal_def decimal_zeros_def)

lemma unicode_space_fullwidth_7: "\<not> unicode_space 65303"
  by (simp add: unicode_space_def)

lemma digit_char_7: "digit_char 7 = CHR ''7''"
  by code_simp

lemma ascii_form_fullwidth_7: "ascii_form [65303] = ''7''"
  by (simp add: unicode_decimal_fullwidth_7 unicode_space_fullwidth_7 digit_char_7)

lemma int_of_ascii_7: "int_of_ascii ''7'' = Some 7"
  by code_simp

lemma int_of_str_fullwidth_7: "int_of_str fullwidth_7 = Some 7"
  by (simp add: int_of_str_def transform_decimal_and_space_def fullwidth_7_not_ascii
      utf8_decode_fullwidth_7 ascii_form_fullwidth_7 int_of_ascii_7 del: ascii_form.simps)

lemma utf8_decode_7_5: "utf8_decode ''7.5'' = Some [55, 46, 53]"
  by code_simp

section \<open>Claims on the quantity rules\<close>

text \<open>
  C2. Let \<open>create_stocks\<close> have worked through the records \<open>pre\<close> without raising,
  with the updates \<open>st1\<close> collected and the working list \<open>ids1\<close> left, and let the
  code of the next record \<open>w\<close> be in \<open>ids1\<close>. Then the quantity of \<open>w\<close> decides what
  the call returns. When the quantity gives a stock \<open>n\<close>, the update of \<open>w\<close> with the
  stock \<open>n\<close> stands in the returned list right after \<open>st1\<close>, whatever records follow,
  and when \<open>w\<close> is the last record the returned list is \<open>st1\<close>, that update, and the
  zero updates of what is left of \<open>ids1\<close>. The quantity \<open>>10\<close> gives 100, the quantity
  \<open>1\<close> gives 0, the quantity \<open>7\<close> gives 7, every other non-empty string of at most 4300
  digits gives the number it denotes, and every other string that \<open>int\<close> accepts gives
  what \<open>int\<close> returns. When the quantity is neither sentinel and \<open>int\<close> rejects it, the
  call raises \<open>ValueError\<close>, the failure that the specification calls
  \<open>MalformedQuantityError\<close>, whatever records follow; \<open>int\<close> rejects every string with
  a character that is no digit, underscore, sign or white space, and every string of
  more than 4300 digits.
\<close>

theorem create_stocks_quantity_rules:
  assumes "stocks_loop pre [] offer_ids = (ids1, Inr st1)"
    and "py_str (Kod w) \<in> set ids1"
  shows
    "let code = py_str (Kod w);
         left = remove1 code ids1;
         gives = (\<lambda>n.
           create_stocks (pre @ [w]) offer_ids
             = (left, Inr (st1 @ \<lparr>offer_id = code, stock = n\<rparr>
                             # map (\<lambda>i. \<lparr>offer_id = i, stock = 0\<rparr>) left))
           \<and> (\<forall>post rest stocks.
                 create_stocks (pre @ w # post) offer_ids = (rest, Inr stocks)
                 \<longrightarrow> take (Suc (length st1)) stocks = st1 @ [\<lparr>offer_id = code, stock = n\<rparr>]));
         raises = (\<lambda>e. \<forall>post. create_stocks (pre @ w # post) offer_ids = (ids1, Inl e))
     in (Kolichestvo w = PStr ''>10'' \<longrightarrow> gives 100)
      \<and> (Kolichestvo w = PStr ''1'' \<longrightarrow> gives 0)
      \<and> (Kolichestvo w = PStr ''7'' \<longrightarrow> gives 7)
      \<and> (\<forall>s. Kolichestvo w = PStr s \<and> s \<noteq> [] \<and> (\<forall>c \<in> set s. is_digit c)
               \<and> length s \<le> 4300 \<and> s \<noteq> ''1''
             \<longrightarrow> gives (int (decimal s)))
      \<and> (\<forall>t cps. Kolichestvo w = PStr t \<and> t \<noteq> ''>10'' \<and> utf8_decode t = Some cps
               \<and> (\<exists>cp \<in> set cps. \<not> numeric_char cp)
             \<longrightarrow> raises ValueError)
      \<and> (\<forall>s. Kolichestvo w = PStr s \<and> (\<forall>c \<in> set s. is_digit c) \<and> 4300 < length s
             \<longrightarrow> raises ValueError)
      \<and> (\<forall>t. Kolichestvo w = PStr t \<and> t \<noteq> ''>10'' \<and> t \<noteq> ''1'' \<and> int_of_str t = None
             \<longrightarrow> raises ValueError)
      \<and> (\<forall>t n. Kolichestvo w = PStr t \<and> t \<noteq> ''>10'' \<and> t \<noteq> ''1'' \<and> int_of_str t = Some n
             \<longrightarrow> gives n)"
proof -
  have gives: "create_stocks (pre @ [w]) offer_ids
             = (remove1 (py_str (Kod w)) ids1,
                Inr (st1 @ \<lparr>offer_id = py_str (Kod w), stock = n\<rparr>
                       # map (\<lambda>i. \<lparr>offer_id = i, stock = 0\<rparr>) (remove1 (py_str (Kod w)) ids1)))
           \<and> (\<forall>post rest stocks.
                 create_stocks (pre @ w # post) offer_ids = (rest, Inr stocks)
                 \<longrightarrow> take (Suc (length st1)) stocks
                       = st1 @ [\<lparr>offer_id = py_str (Kod w), stock = n\<rparr>])"
    if "stock_of (Kolichestvo w) = Inr n" for n
    using create_stocks_reach_last [OF assms that]
      create_stocks_reach_position [OF assms that] by blast
  have raises: "\<forall>post. create_stocks (pre @ w # post) offer_ids = (ids1, Inl e)"
    if "stock_of (Kolichestvo w) = Inl e" for e
    using create_stocks_reach_raises [OF assms that] by blast
  have a: "Kolichestvo w = PStr ''>10'' \<Longrightarrow> stock_of (Kolichestvo w) = Inr 100"
    by (simp add: stock_of_simps)
  have b: "Kolichestvo w = PStr ''1'' \<Longrightarrow> stock_of (Kolichestvo w) = Inr 0"
    by (simp add: stock_of_simps)
  have c: "Kolichestvo w = PStr ''7'' \<Longrightarrow> stock_of (Kolichestvo w) = Inr 7"
    by (simp add: stock_of_simps)
  have d: "Kolichestvo w = PStr s \<and> s \<noteq> [] \<and> (\<forall>c \<in> set s. is_digit c)
               \<and> length s \<le> 4300 \<and> s \<noteq> ''1''
           \<Longrightarrow> stock_of (Kolichestvo w) = Inr (int (decimal s))" for s
    by (simp add: stock_of_digits)
  have e: "Kolichestvo w = PStr t \<and> t \<noteq> ''>10'' \<and> utf8_decode t = Some cps
               \<and> (\<exists>cp \<in> set cps. \<not> numeric_char cp)
           \<Longrightarrow> stock_of (Kolichestvo w) = Inl ValueError" for t cps
    using stock_of_foreign [of t cps] by auto
  have l: "Kolichestvo w = PStr s \<and> (\<forall>c \<in> set s. is_digit c) \<and> 4300 < length s
           \<Longrightarrow> stock_of (Kolichestvo w) = Inl ValueError" for s
    by (simp add: stock_of_too_long)
  have f: "Kolichestvo w = PStr t \<and> t \<noteq> ''>10'' \<and> t \<noteq> ''1'' \<and> int_of_str t = None
           \<Longrightarrow> stock_of (Kolichestvo w) = Inl ValueError" for t
    by (simp add: stock_of_rejected)
  have g: "Kolichestvo w = PStr t \<and> t \<noteq> ''>10'' \<and> t \<noteq> ''1'' \<and> int_of_str t = Some n
           \<Longrightarrow> stock_of (Kolichestvo w) = Inr n" for t n
    by (simp add: stock_of_def)
  show ?thesis
    unfolding Let_def
    apply (intro conjI)
    subgoal using gives [OF a] by blast
    subgoal using gives [OF b] by blast
    subgoal using gives [OF c] by blast
    subgoal using gives [OF d] by blast
    subgoal using raises [OF e] by blast
    subgoal using raises [OF l] by blast
    subgoal using raises [OF f] by blast
    subgoal using gives [OF g] by blast
    done
qed

theorem create_stocks_quantity_rules_witness:
  "stocks_loop [watch_B7] [] [''A'', ''B'', ''C'']
     = ([''A'', ''C''], Inr [\<lparr>offer_id = ''B'', stock = 7\<rparr>])
   \<and> create_stocks [watch_B7, watch_of ''A'' ''>10''] [''A'', ''B'', ''C'']
     = ([''C''], Inr [\<lparr>offer_id = ''B'', stock = 7\<rparr>, \<lparr>offer_id = ''A'', stock = 100\<rparr>,
                      \<lparr>offer_id = ''C'', stock = 0\<rparr>])
   \<and> create_stocks [watch_B7, watch_of ''A'' ''1''] [''A'', ''B'', ''C'']
     = ([''C''], Inr [\<lparr>offer_id = ''B'', stock = 7\<rparr>, \<lparr>offer_id = ''A'', stock = 0\<rparr>,
                      \<lparr>offer_id = ''C'', stock = 0\<rparr>])
   \<and> create_stocks [watch_B7, watch_of ''A'' ''7''] [''A'', ''B'', ''C'']
     = ([''C''], Inr [\<lparr>offer_id = ''B'', stock = 7\<rparr>, \<lparr>offer_id = ''A'', stock = 7\<rparr>,
                      \<lparr>offer_id = ''C'', stock = 0\<rparr>])
   \<and> create_stocks [watch_B7, watch_of ''A'' ''42''] [''A'', ''B'', ''C'']
     = ([''C''], Inr [\<lparr>offer_id = ''B'', stock = 7\<rparr>, \<lparr>offer_id = ''A'', stock = 42\<rparr>,
                      \<lparr>offer_id = ''C'', stock = 0\<rparr>])
   \<and> create_stocks [watch_B7, watch_of ''A'' fullwidth_7] [''A'', ''B'', ''C'']
     = ([''C''], Inr [\<lparr>offer_id = ''B'', stock = 7\<rparr>, \<lparr>offer_id = ''A'', stock = 7\<rparr>,
                      \<lparr>offer_id = ''C'', stock = 0\<rparr>])
   \<and> create_stocks [watch_B7, watch_of ''A'' ''7.5'', watch_X] [''A'', ''B'', ''C'']
     = ([''A'', ''C''], Inl ValueError)
   \<and> create_stocks [watch_B7, watch_of ''A'' ''abc'', watch_X] [''A'', ''B'', ''C'']
     = ([''A'', ''C''], Inl ValueError)
   \<and> create_stocks [watch_B7, watch_of ''A'' (replicate 4301 CHR ''9''), watch_X]
       [''A'', ''B'', ''C'']
     = ([''A'', ''C''], Inl ValueError)"
proof -
  have mem: "py_str (Kod (watch_of ''A'' q)) \<in> set [''A'', ''C'']" for q
    by (simp add: watch_of_def)
  have k: "Kolichestvo (watch_of ''A'' q) = PStr q" "py_str (Kod (watch_of ''A'' q)) = ''A''" for q
    by (simp_all add: watch_of_def)
  note rules = create_stocks_quantity_rules [OF reach_B7 mem, unfolded Let_def k]
  have r1: "create_stocks [watch_B7, watch_of ''A'' ''>10''] [''A'', ''B'', ''C'']
     = ([''C''], Inr [\<lparr>offer_id = ''B'', stock = 7\<rparr>, \<lparr>offer_id = ''A'', stock = 100\<rparr>,
                      \<lparr>offer_id = ''C'', stock = 0\<rparr>])"
    using rules [of "''>10''", THEN conjunct1, rule_format, OF refl, THEN conjunct1] by simp
  have r2: "create_stocks [watch_B7, watch_of ''A'' ''1''] [''A'', ''B'', ''C'']
     = ([''C''], Inr [\<lparr>offer_id = ''B'', stock = 7\<rparr>, \<lparr>offer_id = ''A'', stock = 0\<rparr>,
                      \<lparr>offer_id = ''C'', stock = 0\<rparr>])"
    using rules [of "''1''", THEN conjunct2, THEN conjunct1, rule_format, OF refl, THEN conjunct1]
    by simp
  have r3: "create_stocks [watch_B7, watch_of ''A'' ''7''] [''A'', ''B'', ''C'']
     = ([''C''], Inr [\<lparr>offer_id = ''B'', stock = 7\<rparr>, \<lparr>offer_id = ''A'', stock = 7\<rparr>,
                      \<lparr>offer_id = ''C'', stock = 0\<rparr>])"
    using rules [of "''7''", THEN conjunct2, THEN conjunct2, THEN conjunct1, rule_format, OF refl,
        THEN conjunct1]
    by simp
  have h4: "PStr ''42'' = PStr ''42'' \<and> ''42'' \<noteq> [] \<and> (\<forall>c \<in> set ''42''. is_digit c)
      \<and> length ''42'' \<le> 4300 \<and> ''42'' \<noteq> ''1''"
    by (simp add: is_digit_def)
  have r4: "create_stocks [watch_B7, watch_of ''A'' ''42''] [''A'', ''B'', ''C'']
     = ([''C''], Inr [\<lparr>offer_id = ''B'', stock = 7\<rparr>, \<lparr>offer_id = ''A'', stock = 42\<rparr>,
                      \<lparr>offer_id = ''C'', stock = 0\<rparr>])"
    using rules [of "''42''", THEN conjunct2, THEN conjunct2, THEN conjunct2, THEN conjunct1,
        rule_format, OF h4, THEN conjunct1]
    by (simp add: decimal_42)
  have h5: "PStr ''7.5'' = PStr ''7.5'' \<and> ''7.5'' \<noteq> ''>10'' \<and> utf8_decode ''7.5'' = Some [55, 46, 53]
      \<and> (\<exists>cp \<in> set [55, 46, 53]. \<not> numeric_char cp)"
    by (simp add: utf8_decode_7_5 numeric_char_def)
  have r5: "create_stocks [watch_B7, watch_of ''A'' ''7.5'', watch_X] [''A'', ''B'', ''C'']
     = ([''A'', ''C''], Inl ValueError)"
    using rules [of "''7.5''", THEN conjunct2, THEN conjunct2, THEN conjunct2, THEN conjunct2,
        THEN conjunct1, rule_format, OF h5, of "[watch_X]"]
    by simp
  have h6: "PStr ''abc'' = PStr ''abc'' \<and> ''abc'' \<noteq> ''>10'' \<and> ''abc'' \<noteq> ''1''
      \<and> int_of_str ''abc'' = None"
    by (simp add: int_of_str_abc)
  have r6: "create_stocks [watch_B7, watch_of ''A'' ''abc'', watch_X] [''A'', ''B'', ''C'']
     = ([''A'', ''C''], Inl ValueError)"
    using rules [of "''abc''", THEN conjunct2, THEN conjunct2, THEN conjunct2, THEN conjunct2,
        THEN conjunct2, THEN conjunct2, THEN conjunct1, rule_format, OF h6, of "[watch_X]"]
    by simp
  have h7: "PStr fullwidth_7 = PStr fullwidth_7 \<and> fullwidth_7 \<noteq> ''>10'' \<and> fullwidth_7 \<noteq> ''1''
      \<and> int_of_str fullwidth_7 = Some 7"
    by (simp add: int_of_str_fullwidth_7) (simp add: fullwidth_7_def)
  have r7: "create_stocks [watch_B7, watch_of ''A'' fullwidth_7] [''A'', ''B'', ''C'']
     = ([''C''], Inr [\<lparr>offer_id = ''B'', stock = 7\<rparr>, \<lparr>offer_id = ''A'', stock = 7\<rparr>,
                      \<lparr>offer_id = ''C'', stock = 0\<rparr>])"
    using rules [of fullwidth_7, THEN conjunct2, THEN conjunct2, THEN conjunct2, THEN conjunct2,
        THEN conjunct2, THEN conjunct2, THEN conjunct2, rule_format, OF h7, THEN conjunct1]
    by simp
  have h8: "PStr (replicate 4301 CHR ''9'') = PStr (replicate 4301 CHR ''9'')
      \<and> (\<forall>c \<in> set (replicate 4301 CHR ''9''). is_digit c)
      \<and> 4300 < length (replicate 4301 CHR ''9'')"
    by (simp add: is_digit_def)
  have r8: "create_stocks [watch_B7, watch_of ''A'' (replicate 4301 CHR ''9''), watch_X]
       [''A'', ''B'', ''C'']
     = ([''A'', ''C''], Inl ValueError)"
    using rules [of "replicate 4301 CHR ''9''", THEN conjunct2, THEN conjunct2, THEN conjunct2,
        THEN conjunct2, THEN conjunct2, THEN conjunct1, rule_format, OF h8, of "[watch_X]"]
    by simp
  show ?thesis by (intro conjI reach_B7 r1 r2 r3 r4 r7 r5 r6 r8)
qed

section \<open>Lemmas on \<open>create_prices\<close>\<close>

lemma prices_loop_ids: "fst (prices_loop ws acc ids) = ids"
  by (induction ws arbitrary: acc) (auto split: sum.splits)

lemma prices_loop_result:
  "prices_loop ws acc ids = (ids', Inr ps) \<Longrightarrow>
   \<exists>new. ps = acc @ new \<and> list_all2 price_of (filter (\<lambda>w. py_str (Kod w) \<in> set ids) ws) new"
proof (induction ws arbitrary: acc)
  case Nil
  then show ?case by simp
next
  case (Cons w ws)
  show ?case
  proof (cases "py_str (Kod w) \<in> set ids")
    case True
    then obtain p where p: "price_conversion (Tsena w) = Inr p"
      using Cons.prems by (cases "price_conversion (Tsena w)") auto
    let ?u = "\<lparr>auto_action_enabled = ''UNKNOWN'', currency_code = ''RUB'',
               price_offer_id = py_str (Kod w), old_price = ''0'', price = p\<rparr>"
    from p True Cons.prems have "prices_loop ws (acc @ [?u]) ids = (ids', Inr ps)" by simp
    from Cons.IH [OF this] obtain new where
      new: "ps = (acc @ [?u]) @ new"
           "list_all2 price_of (filter (\<lambda>w. py_str (Kod w) \<in> set ids) ws) new" by blast
    have "price_of w ?u" using p by (simp add: price_of_def)
    with new(2) True have
      "list_all2 price_of (filter (\<lambda>w. py_str (Kod w) \<in> set ids) (w # ws)) (?u # new)" by simp
    moreover have "ps = acc @ (?u # new)" using new(1) by simp
    ultimately show ?thesis by blast
  next
    case False
    with Cons.prems have "prices_loop ws acc ids = (ids', Inr ps)" by simp
    from Cons.IH [OF this] False show ?thesis by simp
  qed
qed

lemma prices_loop_error:
  "prices_loop ws acc ids = (ids', Inl e) \<Longrightarrow>
   \<exists>w \<in> set ws. py_str (Kod w) \<in> set ids \<and> price_conversion (Tsena w) = Inl e"
proof (induction ws arbitrary: acc)
  case Nil
  then show ?case by simp
next
  case (Cons w ws)
  show ?case
  proof (cases "py_str (Kod w) \<in> set ids")
    case True
    show ?thesis
    proof (cases "price_conversion (Tsena w)")
      case (Inl e')
      with True Cons.prems show ?thesis by auto
    next
      case (Inr p)
      with True Cons.prems have
        "prices_loop ws (acc @ [\<lparr>auto_action_enabled = ''UNKNOWN'', currency_code = ''RUB'',
               price_offer_id = py_str (Kod w), old_price = ''0'', price = p\<rparr>]) ids = (ids', Inl e)"
        by simp
      from Cons.IH [OF this] show ?thesis by auto
    qed
  next
    case False
    with Cons.prems have "prices_loop ws acc ids = (ids', Inl e)" by simp
    from Cons.IH [OF this] show ?thesis by auto
  qed
qed

lemma prices_loop_none:
  "\<forall>w \<in> set ws. py_str (Kod w) \<notin> set ids \<Longrightarrow> prices_loop ws acc ids = (ids, Inr acc)"
  by (induction ws) simp_all

lemma run_prices:
  "create_prices [watch_A, watch_X] [''A'', ''B'']
   = ([''A'', ''B''], Inr [\<lparr>auto_action_enabled = ''UNKNOWN'', currency_code = ''RUB'',
                             price_offer_id = ''A'', old_price = ''0'', price = ''100''\<rparr>])"
  by (simp add: create_prices_def watch_A_def watch_X_def price_conversion_str is_digit_def
      str_int_def str_nat.simps digit_char_def del: price_conversion.simps)

lemma run_no_price: "create_prices [watch_no_price] [''A''] = ([''A''], Inl AttributeError)"
  by (simp add: create_prices_def watch_no_price_def)

lemma create_stocks_fst: "fst (create_stocks feed ids) = fst (stocks_loop feed [] ids)"
  by (simp add: create_stocks_def split: prod.splits sum.splits)

lemma stocks_loop_length: "length (fst (stocks_loop ws acc ids)) \<le> length ids"
proof -
  obtain rest r where "stocks_loop ws acc ids = (rest, r)" by (cases "stocks_loop ws acc ids")
  from stocks_loop_subseq [OF this] this show ?thesis by (simp add: list_emb_length)
qed

section \<open>Claims on \<open>create_prices\<close>\<close>

text \<open>
  C8. The list that \<open>create_prices\<close> returns corresponds, one to one and in order, to
  the records of the feed whose code is in the given list of identifiers: nothing is
  added for an identifier without a record. Each update has \<open>currency_code\<close> \<open>RUB\<close>,
  \<open>old_price\<close> \<open>0\<close>, \<open>auto_action_enabled\<close> \<open>UNKNOWN\<close>, the code of its record, and the
  price that \<open>price_conversion\<close> returns for the record's price. The call raises only
  when \<open>price_conversion\<close> raises on such a record, which no price that is a string
  does.
\<close>

theorem create_prices_matching_records:
  "(case create_prices feed offer_ids of
      (ids', Inl e) \<Rightarrow>
        (\<exists>w \<in> set feed. py_str (Kod w) \<in> set offer_ids \<and> price_conversion (Tsena w) = Inl e)
    | (ids', Inr prices) \<Rightarrow>
        list_all2 price_of (filter (\<lambda>w. py_str (Kod w) \<in> set offer_ids) feed) prices)
   \<and> ((\<forall>w \<in> set feed. \<exists>s. Tsena w = PStr s)
         \<longrightarrow> (\<exists>prices. snd (create_prices feed offer_ids) = Inr prices))"
proof -
  obtain ids' r where cp: "create_prices feed offer_ids = (ids', r)"
    by (cases "create_prices feed offer_ids")
  have a: "case create_prices feed offer_ids of
      (ids', Inl e) \<Rightarrow>
        (\<exists>w \<in> set feed. py_str (Kod w) \<in> set offer_ids \<and> price_conversion (Tsena w) = Inl e)
    | (ids', Inr prices) \<Rightarrow>
        list_all2 price_of (filter (\<lambda>w. py_str (Kod w) \<in> set offer_ids) feed) prices"
  proof (cases r)
    case (Inl e)
    with cp have "prices_loop feed [] offer_ids = (ids', Inl e)" by (simp add: create_prices_def)
    from prices_loop_error [OF this] cp Inl show ?thesis by simp
  next
    case (Inr prices)
    with cp have "prices_loop feed [] offer_ids = (ids', Inr prices)" by (simp add: create_prices_def)
    from prices_loop_result [OF this] cp Inr show ?thesis by simp
  qed
  have b: "(\<forall>w \<in> set feed. \<exists>s. Tsena w = PStr s)
         \<longrightarrow> (\<exists>prices. snd (create_prices feed offer_ids) = Inr prices)"
  proof
    assume str: "\<forall>w \<in> set feed. \<exists>s. Tsena w = PStr s"
    show "\<exists>prices. snd (create_prices feed offer_ids) = Inr prices"
    proof (cases r)
      case (Inl e)
      with cp have "prices_loop feed [] offer_ids = (ids', Inl e)" by (simp add: create_prices_def)
      from prices_loop_error [OF this] obtain w where
        "w \<in> set feed" "price_conversion (Tsena w) = Inl e" by blast
      with str show ?thesis by (auto simp: price_conversion_str simp del: price_conversion.simps)
    next
      case (Inr prices)
      with cp show ?thesis by simp
    qed
  qed
  from a b show ?thesis by blast
qed

theorem create_prices_matching_records_witness:
  "(\<exists>s. Tsena watch_A = PStr s) \<and> (\<exists>s. Tsena watch_X = PStr s)
   \<and> create_prices [watch_A, watch_X] [''A'', ''B'']
     = ([''A'', ''B''], Inr [\<lparr>auto_action_enabled = ''UNKNOWN'', currency_code = ''RUB'',
                               price_offer_id = ''A'', old_price = ''0'', price = ''100''\<rparr>])
   \<and> list_all2 price_of [watch_A]
       [\<lparr>auto_action_enabled = ''UNKNOWN'', currency_code = ''RUB'',
          price_offer_id = ''A'', old_price = ''0'', price = ''100''\<rparr>]
   \<and> create_prices [watch_no_price] [''A''] = ([''A''], Inl AttributeError)
   \<and> (\<exists>w \<in> set [watch_no_price]. py_str (Kod w) \<in> set [''A'']
          \<and> price_conversion (Tsena w) = Inl AttributeError)"
proof -
  have returns: "(\<exists>s. Tsena watch_A = PStr s) \<and> (\<exists>s. Tsena watch_X = PStr s)
     \<and> list_all2 price_of [watch_A]
       [\<lparr>auto_action_enabled = ''UNKNOWN'', currency_code = ''RUB'',
          price_offer_id = ''A'', old_price = ''0'', price = ''100''\<rparr>]"
    using create_prices_matching_records [of "[watch_A, watch_X]" "[''A'', ''B'']"]
    unfolding run_prices
    by (simp add: watch_A_def watch_X_def str_int_def str_nat.simps digit_char_def)
  have raises: "\<exists>w \<in> set [watch_no_price]. py_str (Kod w) \<in> set [''A'']
          \<and> price_conversion (Tsena w) = Inl AttributeError"
    using create_prices_matching_records [of "[watch_no_price]" "[''A'']"]
    unfolding run_no_price by simp
  from returns raises run_prices run_no_price show ?thesis by simp
qed

text \<open>
  C9. Whatever the feed and the list of identifiers, and whether \<open>create_prices\<close>
  returns or raises, the list of identifiers is afterwards what it was before, element
  for element. \<open>create_stocks\<close> is different: as soon as the first record is matched
  and its quantity is accepted, the list it leaves behind is shorter than the list it
  was given.
\<close>

theorem create_prices_frame:
  "fst (create_prices feed offer_ids) = offer_ids
   \<and> (py_str (Kod w) \<in> set offer_ids \<and> stock_of (Kolichestvo w) = Inr n
        \<longrightarrow> length (fst (create_stocks (w # ws) offer_ids)) < length offer_ids)"
proof -
  have a: "fst (create_prices feed offer_ids) = offer_ids"
    by (simp add: create_prices_def prices_loop_ids)
  have b: "py_str (Kod w) \<in> set offer_ids \<and> stock_of (Kolichestvo w) = Inr n
        \<longrightarrow> length (fst (create_stocks (w # ws) offer_ids)) < length offer_ids"
  proof
    assume h: "py_str (Kod w) \<in> set offer_ids \<and> stock_of (Kolichestvo w) = Inr n"
    then have "fst (create_stocks (w # ws) offer_ids)
        = fst (stocks_loop ws [\<lparr>offer_id = py_str (Kod w), stock = n\<rparr>] (remove1 (py_str (Kod w)) offer_ids))"
      by (simp add: create_stocks_fst)
    moreover have "length (fst (stocks_loop ws [\<lparr>offer_id = py_str (Kod w), stock = n\<rparr>]
        (remove1 (py_str (Kod w)) offer_ids))) \<le> length (remove1 (py_str (Kod w)) offer_ids)"
      by (rule stocks_loop_length)
    moreover have "length (remove1 (py_str (Kod w)) offer_ids) < length offer_ids"
      using h by (simp add: length_remove1) (cases offer_ids; simp)
    ultimately show "length (fst (create_stocks (w # ws) offer_ids)) < length offer_ids" by simp
  qed
  from a b show ?thesis by blast
qed

theorem create_prices_frame_witness:
  "py_str (Kod watch_A) \<in> set [''A'', ''B''] \<and> stock_of (Kolichestvo watch_A) = Inr 100
   \<and> fst (create_prices [watch_A] [''A'', ''B'']) = [''A'', ''B'']
   \<and> fst (create_stocks [watch_A] [''A'', ''B'']) = [''B'']
   \<and> length (fst (create_stocks [watch_A] [''A'', ''B''])) < length [''A'', ''B'']"
  using create_prices_frame [of "[watch_A]" "[''A'', ''B'']" watch_A 100 "[]"]
  by (simp add: run_AB) (simp add: watch_A_def stock_of_simps)

section \<open>Lemmas on \<open>main\<close>\<close>

lemma send_all_sent: "set (fst (snd (send_all api st rs))) \<subseteq> set rs"
proof (induction rs arbitrary: st)
  case Nil
  then show ?case by simp
next
  case (Cons r rs)
  obtain res st' where a: "api st r = (res, st')" by (cases "api st r")
  show ?case
  proof (cases res)
    case None
    obtain st'' sent' res' where s: "send_all api st' rs = (st'', sent', res')"
      by (cases "send_all api st' rs") auto
    with Cons.IH [of st'] have "set sent' \<subseteq> set rs" by simp
    with a None s show ?thesis by auto
  next
    case (Some e)
    with a show ?thesis by simp
  qed
qed

lemma divide_nil: "0 < n \<Longrightarrow> divide [] n = Inr []"
  by (simp add: divide_def py_range_def range_from.simps)

lemma stocks_loop_consumes:
  assumes "distinct ids" "stocks_loop feed acc ids = (rest, Inr st)"
  shows "\<forall>w \<in> set feed. py_str (Kod w) \<notin> set rest"
  using stocks_loop_rest [OF assms] by auto

lemma create_prices_after_stocks:
  assumes "distinct ids" "create_stocks feed ids = (rest, Inr stocks)"
  shows "(\<forall>w \<in> set feed. py_str (Kod w) \<notin> set rest) \<and> create_prices feed rest = (rest, Inr [])"
proof -
  from create_stocks_Inr [OF assms(2)] obtain st where
    "stocks_loop feed [] ids = (rest, Inr st)" by blast
  from stocks_loop_consumes [OF assms(1) this]
  have none: "\<forall>w \<in> set feed. py_str (Kod w) \<notin> set rest" .
  then show ?thesis by (simp add: create_prices_def prices_loop_none)
qed

lemma main_after_stocks:
  assumes "create_stocks feed ids = (rest, Inr stocks)"
    and "create_prices feed rest = (rest, Inr [])"
  shows "(prices_built (main api st (Inr ids) (Inr feed)) = None
          \<or> prices_built (main api st (Inr ids) (Inr feed)) = Some [])
         \<and> UpdatePrice batch \<notin> set (sent (main api st (Inr ids) (Inr feed)))"
proof -
  obtain chunks where ch: "divide stocks 100 = Inr chunks" by (simp add: divide_pos)
  obtain st1 sent1 res where sa: "send_all api st (map UpdateStocks chunks) = (st1, sent1, res)"
    by (cases "send_all api st (map UpdateStocks chunks)") auto
  have "set sent1 \<subseteq> set (map UpdateStocks chunks)"
    using send_all_sent [of api st "map UpdateStocks chunks"] sa by simp
  then have no: "UpdatePrice batch \<notin> set sent1" by auto
  have dn: "divide ([] :: price_update list) 900 = Inr []" by (simp add: divide_nil)
  show ?thesis
  proof (cases res)
    case None
    with assms ch sa dn no show ?thesis by (simp add: main_def)
  next
    case (Some e)
    with assms ch sa no show ?thesis by (simp add: main_def)
  qed
qed

lemma run_main:
  "main accept_all () (Inr [''A'', ''B'']) (Inr [watch_A])
   = \<lparr>sent = [UpdateStocks [\<lparr>offer_id = ''A'', stock = 100\<rparr>, \<lparr>offer_id = ''B'', stock = 0\<rparr>]],
      prices_built = Some [], caught = None\<rparr>"
proof -
  have d: "divide [\<lparr>offer_id = ''A'', stock = 100\<rparr>, \<lparr>offer_id = ''B'', stock = 0\<rparr>] 100
           = Inr [[\<lparr>offer_id = ''A'', stock = 100\<rparr>, \<lparr>offer_id = ''B'', stock = 0\<rparr>]]"
    by (simp add: divide_def py_range_def range_from.simps py_slice_def slice_bound_def)
  have p: "create_prices [watch_A] [''B''] = ([''B''], Inr [])"
    by (simp add: create_prices_def watch_A_def)
  show ?thesis
    by (simp add: main_def run_AB d p divide_nil accept_all_def)
qed

section \<open>Claims on \<open>main\<close>\<close>

text \<open>
  C10. \<open>main\<close> hands to \<open>create_prices\<close> the list that \<open>create_stocks\<close> has just
  worked on. For a catalog without duplicates, every code of the feed has left that
  list when \<open>create_stocks\<close> returns, so \<open>create_prices\<close> matches no record and
  returns the empty list. Hence a run of \<open>main\<close> either does not get as far as the
  price list or builds the empty one, and it never sends a price request, whatever the
  marketplace answers and whatever the download gave.
\<close>

theorem main_builds_no_price:
  assumes "distinct offer_ids"
  shows "(prices_built (main api st (Inr offer_ids) got_remnants) = None
          \<or> prices_built (main api st (Inr offer_ids) got_remnants) = Some [])
         \<and> UpdatePrice batch \<notin> set (sent (main api st (Inr offer_ids) got_remnants))
         \<and> (create_stocks feed offer_ids = (rest, Inr stocks)
              \<longrightarrow> (\<forall>w \<in> set feed. py_str (Kod w) \<notin> set rest)
                  \<and> create_prices feed rest = (rest, Inr []))"
proof -
  have a: "(prices_built (main api st (Inr offer_ids) got_remnants) = None
          \<or> prices_built (main api st (Inr offer_ids) got_remnants) = Some [])
         \<and> UpdatePrice batch \<notin> set (sent (main api st (Inr offer_ids) got_remnants))"
  proof (cases got_remnants)
    case (Inl e)
    then show ?thesis by (simp add: main_def)
  next
    case (Inr remnants)
    obtain left r where cs: "create_stocks remnants offer_ids = (left, r)"
      by (cases "create_stocks remnants offer_ids")
    show ?thesis
    proof (cases r)
      case (Inl e)
      with cs Inr show ?thesis by (simp add: main_def)
    next
      case (Inr built)
      with cs have cs': "create_stocks remnants offer_ids = (left, Inr built)" by simp
      from create_prices_after_stocks [OF assms cs']
      have "create_prices remnants left = (left, Inr [])" by simp
      from main_after_stocks [OF cs' this] \<open>got_remnants = Inr remnants\<close> show ?thesis by simp
    qed
  qed
  have b: "create_stocks feed offer_ids = (rest, Inr stocks)
              \<longrightarrow> (\<forall>w \<in> set feed. py_str (Kod w) \<notin> set rest)
                  \<and> create_prices feed rest = (rest, Inr [])"
    using create_prices_after_stocks [OF assms] by blast
  from a b show ?thesis by blast
qed

theorem main_builds_no_price_witness:
  "distinct [''A'', ''B'']
   \<and> create_stocks [watch_A] [''A'', ''B'']
       = ([''B''], Inr [\<lparr>offer_id = ''A'', stock = 100\<rparr>, \<lparr>offer_id = ''B'', stock = 0\<rparr>])
   \<and> create_prices [watch_A] [''B''] = ([''B''], Inr [])
   \<and> prices_built (main accept_all () (Inr [''A'', ''B'']) (Inr [watch_A])) = Some []
   \<and> sent (main accept_all () (Inr [''A'', ''B'']) (Inr [watch_A]))
       = [UpdateStocks [\<lparr>offer_id = ''A'', stock = 100\<rparr>, \<lparr>offer_id = ''B'', stock = 0\<rparr>]]"
proof -
  have d: "distinct [''A'', ''B'']" by simp
  from main_builds_no_price [OF d, of accept_all "()" "Inr [watch_A]" "[]" "[watch_A]" "[''B'']"
      "[\<lparr>offer_id = ''A'', stock = 100\<rparr>, \<lparr>offer_id = ''B'', stock = 0\<rparr>]"]
  show ?thesis by (simp add: run_AB run_main)
qed

section \<open>Lemmas on the loop of \<open>get_offer_ids\<close>\<close>





lemma run_failing: "page_loop failing_server () '''' [] = Some (Inl ApiError)"
  by (subst page_loop.simps) (simp add: failing_server_def)



section \<open>Claims on \<open>get_offer_ids\<close>\<close>




section \<open>Catalogs with duplicates\<close>

lemma run_AA:
  "create_stocks [watch_A] [''A'', ''A'']
   = ([''A''], Inr [\<lparr>offer_id = ''A'', stock = 100\<rparr>, \<lparr>offer_id = ''A'', stock = 0\<rparr>])"
  by (simp add: create_stocks_def watch_A_def stock_of_simps)

text \<open>
  X1. Duplicates in the catalog list do not change the count: whenever \<open>create_stocks\<close>
  returns, the identifiers of the updates are the identifiers of the catalog list with
  the same multiplicities, so there are as many updates as entries of the list.
\<close>

theorem create_stocks_multiset:
  assumes "create_stocks feed offer_ids = (rest, Inr stocks)"
  shows "mset (map offer_id stocks) = mset offer_ids \<and> length stocks = length offer_ids"
proof -
  have m: "mset (map offer_id stocks) = mset offer_ids" using assms by (rule create_stocks_mset)
  from mset_eq_length [OF m] m show ?thesis by simp
qed

theorem create_stocks_multiset_witness:
  "create_stocks [watch_A] [''A'', ''A'']
     = ([''A''], Inr [\<lparr>offer_id = ''A'', stock = 100\<rparr>, \<lparr>offer_id = ''A'', stock = 0\<rparr>])
   \<and> mset (map offer_id [\<lparr>offer_id = ''A'', stock = 100\<rparr>, \<lparr>offer_id = ''A'', stock = 0\<rparr>])
       = mset [''A'', ''A'']
   \<and> length [\<lparr>offer_id = ''A'', stock = 100\<rparr>, \<lparr>offer_id = ''A'', stock = 0\<rparr>]
       = length [''A'', ''A'']"
  using create_stocks_multiset [OF run_AA] run_AA by simp

text \<open>
  X2. When the catalog list names an identifier twice, one occurrence survives
  \<open>create_stocks\<close>, and the run of \<open>main\<close> does build and send a price for it.
\<close>

theorem main_duplicate_catalog_sends_price:
  "main accept_all () (Inr [''A'', ''A'']) (Inr [watch_A])
   = \<lparr>sent = [UpdateStocks [\<lparr>offer_id = ''A'', stock = 100\<rparr>, \<lparr>offer_id = ''A'', stock = 0\<rparr>],
              UpdatePrice [\<lparr>auto_action_enabled = ''UNKNOWN'', currency_code = ''RUB'',
                             price_offer_id = ''A'', old_price = ''0'', price = ''100''\<rparr>]],
      prices_built = Some [\<lparr>auto_action_enabled = ''UNKNOWN'', currency_code = ''RUB'',
                             price_offer_id = ''A'', old_price = ''0'', price = ''100''\<rparr>],
      caught = None\<rparr>"
proof -
  have d: "divide [\<lparr>offer_id = ''A'', stock = 100\<rparr>, \<lparr>offer_id = ''A'', stock = 0\<rparr>] 100
           = Inr [[\<lparr>offer_id = ''A'', stock = 100\<rparr>, \<lparr>offer_id = ''A'', stock = 0\<rparr>]]"
    by (simp add: divide_def py_range_def range_from.simps py_slice_def slice_bound_def)
  have p: "create_prices [watch_A] [''A'']
           = ([''A''], Inr [\<lparr>auto_action_enabled = ''UNKNOWN'', currency_code = ''RUB'',
                              price_offer_id = ''A'', old_price = ''0'', price = ''100''\<rparr>])"
    by (simp add: create_prices_def watch_A_def price_conversion_str is_digit_def
        del: price_conversion.simps)
  have e: "divide [\<lparr>auto_action_enabled = ''UNKNOWN'', currency_code = ''RUB'',
                     price_offer_id = ''A'', old_price = ''0'', price = ''100''\<rparr>] 900
           = Inr [[\<lparr>auto_action_enabled = ''UNKNOWN'', currency_code = ''RUB'',
                     price_offer_id = ''A'', old_price = ''0'', price = ''100''\<rparr>]]"
    by (simp add: divide_def py_range_def range_from.simps py_slice_def slice_bound_def)
  show ?thesis
    by (simp add: main_def run_AA d p e accept_all_def)
qed

end
